theory Spec2Isabelle
  imports Main "HOL-Library.Word"
begin

section \<open>Go values shared by the embedded packages\<close>

text \<open>
  A Go \<^verbatim>\<open>error\<close> is a value; \<^verbatim>\<open>nil\<close> is \<open>None\<close> of \<open>error option\<close>.
  \<open>EOF\<close> is the sentinel \<^verbatim>\<open>io.EOF\<close>, \<open>ErrNoRows\<close> the sentinel \<^verbatim>\<open>sql.ErrNoRows\<close>,
  \<open>New msg\<close> is \<^verbatim>\<open>errors.New(msg)\<close>, \<open>Wrap e msg\<close> is \<^verbatim>\<open>errors.Wrap(e, msg)\<close> on a
  non-nil \<open>e\<close>, and \<open>Wrapf e fmt arg\<close> is \<^verbatim>\<open>errors.Wrapf(e, fmt, arg)\<close> on a non-nil \<open>e\<close>,
  with the format and its one argument kept apart (the formatted text is not computed).
  A comparison \<^verbatim>\<open>err == io.EOF\<close> is equality with \<open>Some EOF\<close>: a wrapped \<open>EOF\<close> is a
  different value.
\<close>

datatype error =
    EOF
  | ErrNoRows
  | New string
  | Wrap error string
  | Wrapf error string "32 word"

section \<open>services/orbitr/internal/ingest/processors: streaming a ledger\<close>

text \<open>
  \<^verbatim>\<open>ingest.LedgerTransaction\<close>: the two fields the driver reads are \<^verbatim>\<open>Index\<close> (a uint32)
  and the hex string of \<^verbatim>\<open>Result.TransactionHash\<close>. \<^verbatim>\<open>ingest.Change\<close> has an entry type and
  the optional images of the entry before and after.
\<close>

record LedgerTransaction =
  Index :: "32 word"
  TransactionHash :: string

record Change =
  ChangeType :: nat
  Pre :: "string option"
  Post :: "string option"

text \<open>
  Every call the driver makes on its collaborators is appended to a call log, so that
  "which calls were made, and in which order" is a value.
\<close>

datatype call =
    CallRead
  | CallFilterTransaction LedgerTransaction
  | CallFilteredProcessTransaction LedgerTransaction
  | CallProcessTransaction LedgerTransaction
  | CallDebugf string string
  | CallProcessChange Change

text \<open>
  Go's \<^verbatim>\<open>for { ... }\<close>: the body either returns a result (\<open>Inl\<close>) or reaches the end of the
  block or a \<^verbatim>\<open>continue\<close> with a new state (\<open>Inr\<close>). A loop that never returns is \<open>None\<close>.
  \<open>iterations n body s\<close> is the state in which iteration \<open>n\<close> (counting from 0) starts,
  when the \<open>n\<close> iterations before it all ran to their end.
\<close>

partial_function (option) for_loop :: "('s \<Rightarrow> 'r + 's) \<Rightarrow> 's \<Rightarrow> 'r option" where
  "for_loop body s = (case body s of Inl r \<Rightarrow> Some r | Inr s' \<Rightarrow> for_loop body s')"

fun iterations :: "nat \<Rightarrow> ('s \<Rightarrow> 'r + 's) \<Rightarrow> 's \<Rightarrow> 's option" where
  "iterations 0 body s = Some s"
| "iterations (Suc n) body s =
     (case body s of Inl r \<Rightarrow> None | Inr s' \<Rightarrow> iterations n body s')"

text \<open>
  The reader, the filterer and the two processors are interface values: each method is a
  function on one shared world state \<open>'w\<close> (whatever the collaborators own or share), which
  returns the Go results and the new world. The context argument is part of the world.
\<close>

record 'w transaction_pipeline =
  reader_Read :: "'w \<Rightarrow> (LedgerTransaction \<times> error option) \<times> 'w"
  txFilterer_FilterTransaction :: "LedgerTransaction \<Rightarrow> 'w \<Rightarrow> (bool \<times> error option) \<times> 'w"
  filteredTxProcessor_ProcessTransaction :: "LedgerTransaction \<Rightarrow> 'w \<Rightarrow> error option \<times> 'w"
  txProcessor_ProcessTransaction :: "LedgerTransaction \<Rightarrow> 'w \<Rightarrow> error option \<times> 'w"

record 'w change_pipeline =
  changeReader_Read :: "'w \<Rightarrow> (Change \<times> error option) \<times> 'w"
  changeProcessor_ProcessChange :: "Change \<Rightarrow> 'w \<Rightarrow> error option \<times> 'w"

text \<open>The body of the loop of \<^verbatim>\<open>StreamLedgerTransactions\<close> (change_processors.go, lines 31 to 64).\<close>

definition StreamLedgerTransactions_body ::
  "'w transaction_pipeline \<Rightarrow> 'w \<times> call list \<Rightarrow>
     (error option \<times> 'w \<times> call list) + ('w \<times> call list)" where
  "StreamLedgerTransactions_body P s =
    (case s of (w, cs) \<Rightarrow>
     case reader_Read P w of ((tx, err), w) \<Rightarrow>
     let cs = cs @ [CallRead] in
     if err = Some EOF then Inl (None, w, cs)
     else case err of
       Some e \<Rightarrow> Inl (Some (Wrap e ''could not read transaction''), w, cs)
     | None \<Rightarrow>
        (case txFilterer_FilterTransaction P tx w of ((include, err), w) \<Rightarrow>
         let cs = cs @ [CallFilterTransaction tx] in
         case err of
           Some e \<Rightarrow> Inl (Some (Wrapf e ''could not filter transaction %v'' (Index tx)), w, cs)
         | None \<Rightarrow>
            if \<not> include then
              (case filteredTxProcessor_ProcessTransaction P tx w of (err, w) \<Rightarrow>
               let cs = cs @ [CallFilteredProcessTransaction tx] in
               case err of
                 Some e \<Rightarrow>
                   Inl (Some (Wrapf e ''could not process transaction %v'' (Index tx)), w, cs)
               | None \<Rightarrow>
                   Inr (w, cs @ [CallDebugf
                     ''Filters did not find match on transaction, dropping this tx with hash %v''
                     (TransactionHash tx)]))
            else
              (case txProcessor_ProcessTransaction P tx w of (err, w) \<Rightarrow>
               let cs = cs @ [CallProcessTransaction tx] in
               case err of
                 Some e \<Rightarrow>
                   Inl (Some (Wrapf e ''could not process transaction %v'' (Index tx)), w, cs)
               | None \<Rightarrow> Inr (w, cs))))"

definition StreamLedgerTransactions ::
  "'w transaction_pipeline \<Rightarrow> 'w \<times> call list \<Rightarrow> (error option \<times> 'w \<times> call list) option" where
  "StreamLedgerTransactions P s = for_loop (StreamLedgerTransactions_body P) s"

text \<open>The body of the loop of \<^verbatim>\<open>StreamChanges\<close> (lines 74 to 87).\<close>

definition StreamChanges_body ::
  "'w change_pipeline \<Rightarrow> 'w \<times> call list \<Rightarrow>
     (error option \<times> 'w \<times> call list) + ('w \<times> call list)" where
  "StreamChanges_body P s =
    (case s of (w, cs) \<Rightarrow>
     case changeReader_Read P w of ((change, err), w) \<Rightarrow>
     let cs = cs @ [CallRead] in
     if err = Some EOF then Inl (None, w, cs)
     else case err of
       Some e \<Rightarrow> Inl (Some (Wrap e ''could not read transaction''), w, cs)
     | None \<Rightarrow>
        (case changeProcessor_ProcessChange P change w of (err, w) \<Rightarrow>
         let cs = cs @ [CallProcessChange change] in
         case err of
           Some e \<Rightarrow> Inl (Some (Wrap e ''could not process change''), w, cs)
         | None \<Rightarrow> Inr (w, cs)))"

definition StreamChanges ::
  "'w change_pipeline \<Rightarrow> 'w \<times> call list \<Rightarrow> (error option \<times> 'w \<times> call list) option" where
  "StreamChanges P s = for_loop (StreamChanges_body P) s"

text \<open>
  The condition "the reader signals end-of-data before any filterer or processor error",
  stated on the collaborators alone and not through the driver: \<open>error_free_transactions n\<close>
  is the world after the reader has yielded \<open>n\<close> transactions and, for each in turn, the
  filterer and then the processor the filterer's answer selects have returned no error; it
  is \<open>None\<close> when one of these calls returns an error (end-of-data included) among the first
  \<open>n\<close> transactions. \<open>error_free_changes\<close> is the same for changes and their processor.
\<close>

fun error_free_transactions :: "nat \<Rightarrow> 'w transaction_pipeline \<Rightarrow> 'w \<Rightarrow> 'w option" where
  "error_free_transactions 0 P w = Some w"
| "error_free_transactions (Suc n) P w =
    (case reader_Read P w of
       ((tx, Some e), w1) \<Rightarrow> None
     | ((tx, None), w1) \<Rightarrow>
        (case txFilterer_FilterTransaction P tx w1 of
           ((incl, Some e), w2) \<Rightarrow> None
         | ((incl, None), w2) \<Rightarrow>
            (case (if incl then txProcessor_ProcessTransaction P tx w2
                   else filteredTxProcessor_ProcessTransaction P tx w2) of
               (Some e, w3) \<Rightarrow> None
             | (None, w3) \<Rightarrow> error_free_transactions n P w3)))"

fun error_free_changes :: "nat \<Rightarrow> 'w change_pipeline \<Rightarrow> 'w \<Rightarrow> 'w option" where
  "error_free_changes 0 P w = Some w"
| "error_free_changes (Suc n) P w =
    (case changeReader_Read P w of
       ((c, Some e), w1) \<Rightarrow> None
     | ((c, None), w1) \<Rightarrow>
        (case changeProcessor_ProcessChange P c w1 of
           (Some e, w2) \<Rightarrow> None
         | (None, w2) \<Rightarrow> error_free_changes n P w2))"

text \<open>
  Collaborators for worked examples. The world is the list of results the reader has yet
  to return; a reader past its last result signals \<open>EOF\<close>. The filterer includes a
  transaction when its index is even; a processor fails on the index it is given.
\<close>

definition scripted_Read :: "'a \<Rightarrow> ('a \<times> error option) list \<Rightarrow> ('a \<times> error option) \<times> ('a \<times> error option) list" where
  "scripted_Read zero w = (case w of [] \<Rightarrow> ((zero, Some EOF), []) | x # xs \<Rightarrow> (x, xs))"

definition example_tx :: "32 word \<Rightarrow> LedgerTransaction" where
  "example_tx i = \<lparr>Index = i, TransactionHash = ''ab''\<rparr>"

definition example_pipeline ::
  "32 word option \<Rightarrow> 32 word option \<Rightarrow> (LedgerTransaction \<times> error option) list transaction_pipeline" where
  "example_pipeline filter_fails_on process_fails_on =
     \<lparr>reader_Read = scripted_Read (example_tx 0),
      txFilterer_FilterTransaction = (\<lambda>tx w.
        ((even (Index tx),
          if filter_fails_on = Some (Index tx) then Some (New ''filter failed'') else None), w)),
      filteredTxProcessor_ProcessTransaction = (\<lambda>tx w.
        (if process_fails_on = Some (Index tx) then Some (New ''insert failed'') else None, w)),
      txProcessor_ProcessTransaction = (\<lambda>tx w.
        (if process_fails_on = Some (Index tx) then Some (New ''insert failed'') else None, w))\<rparr>"

definition example_change :: "nat \<Rightarrow> Change" where
  "example_change i = \<lparr>ChangeType = i, Pre = None, Post = Some ''entry''\<rparr>"

definition example_change_pipeline ::
  "nat option \<Rightarrow> (Change \<times> error option) list change_pipeline" where
  "example_change_pipeline process_fails_on =
     \<lparr>changeReader_Read = scripted_Read (example_change 0),
      changeProcessor_ProcessChange = (\<lambda>c w.
        (if process_fails_on = Some (ChangeType c) then Some (New ''insert failed'') else None, w))\<rparr>"

section \<open>ingest/ledgerbackend: the trusted ledger hash store\<close>

text \<open>
  The query value built with the squirrel builder: the selected columns, the table, the
  row limit and the conditions with their arguments, in the order the calls add them.
\<close>

record select_builder =
  columns :: "string list"
  from_table :: string
  limit :: "nat option"
  wheres :: "(string \<times> 32 word list) list"

definition sq_Select :: "string list \<Rightarrow> select_builder" where
  "sq_Select cols = \<lparr>columns = cols, from_table = '''', limit = None, wheres = []\<rparr>"

definition sq_From :: "string \<Rightarrow> select_builder \<Rightarrow> select_builder" where
  "sq_From t b = b\<lparr>from_table := t\<rparr>"

definition sq_Limit :: "nat \<Rightarrow> select_builder \<Rightarrow> select_builder" where
  "sq_Limit n b = b\<lparr>limit := Some n\<rparr>"

definition sq_Where :: "string \<Rightarrow> 32 word list \<Rightarrow> select_builder \<Rightarrow> select_builder" where
  "sq_Where pred args b = b\<lparr>wheres := wheres b @ [(pred, args)]\<rparr>"

text \<open>
  \<^verbatim>\<open>db.SessionInterface\<close>, as far as \<^verbatim>\<open>GetLedgerHash\<close> uses it: \<^verbatim>\<open>Get(ctx, &dest, query)\<close>
  takes the query and the current value of the destination and returns the destination's
  new value and an error; \<^verbatim>\<open>NoRows(err)\<close> tests an error.
\<close>

record SessionInterface =
  session_Get :: "select_builder \<Rightarrow> string \<Rightarrow> string \<times> error option"
  session_NoRows :: "error option \<Rightarrow> bool"

text \<open>\<^verbatim>\<open>OrbitRDBLedgerHashStore.GetLedgerHash\<close> (ledger_hash_store.go, lines 32 to 42).\<close>

definition GetLedgerHash :: "SessionInterface \<Rightarrow> 32 word \<Rightarrow> string \<times> bool \<times> error option" where
  "GetLedgerHash session seq =
    (let sql = sq_Where ''sequence = ?'' [seq]
                 (sq_Limit 1 (sq_From ''history_ledgers hl'' (sq_Select [''hl.ledger_hash''])));
         hash = '''';
         (hash, err) = session_Get session sql hash
     in if session_NoRows session err then (hash, False, None)
        else (hash, True, err))"

text \<open>
  Modelled from the spec: the session of \<^verbatim>\<open>support/db\<close> (not under src/) over the index's
  own committed history, the trusted hash source of the spec, "satisfied by the index's own
  already-committed history". The table \<^verbatim>\<open>history_ledgers\<close> is a list of rows (sequence,
  ledger hash). A query that fails (\<open>failure\<close>, any error the database or the connection
  raises) returns that error and leaves the destination as it was. Otherwise the rows whose
  sequence equals the query's argument are selected, up to the limit: with none,
  \<^verbatim>\<open>Get\<close> returns \<open>ErrNoRows\<close> and leaves the destination; else it stores the first row's
  hash and returns \<^verbatim>\<open>nil\<close>. \<^verbatim>\<open>NoRows\<close> holds of \<open>ErrNoRows\<close> only. A query of another
  shape than the one \<^verbatim>\<open>GetLedgerHash\<close> builds is answered with an error.
\<close>

definition select_ledger_hash :: "(32 word \<times> string) list \<Rightarrow> select_builder \<Rightarrow> error + string list" where
  "select_ledger_hash history_ledgers q =
    (case (columns q, from_table q, wheres q) of
       ([c], t, [(p, [seq])]) \<Rightarrow>
         if c = ''hl.ledger_hash'' \<and> t = ''history_ledgers hl'' \<and> p = ''sequence = ?''
         then
           (let hashes = map snd (filter (\<lambda>row. fst row = seq) history_ledgers)
            in Inr (case limit q of None \<Rightarrow> hashes | Some n \<Rightarrow> take n hashes))
         else Inl (New ''get failed'')
     | _ \<Rightarrow> Inl (New ''get failed''))"

definition db_session :: "(32 word \<times> string) list \<Rightarrow> error option \<Rightarrow> SessionInterface" where
  "db_session history_ledgers failure =
    \<lparr>session_Get = (\<lambda>q dest.
       case failure of
         Some e \<Rightarrow> (dest, Some e)
       | None \<Rightarrow>
          (case select_ledger_hash history_ledgers q of
             Inl e \<Rightarrow> (dest, Some e)
           | Inr [] \<Rightarrow> (dest, Some ErrNoRows)
           | Inr (h # _) \<Rightarrow> (h, None))),
     session_NoRows = (\<lambda>err. err = Some ErrNoRows)\<rparr>"

section \<open>ingest/ledgerbackend: starting the gravity subprocess (posix)\<close>

text \<open>
  The runner's process, as far as \<^verbatim>\<open>start\<close> touches it: the descriptors that are open, the
  anonymous pipes made so far as pairs (read end, write end), and the answer the kernel
  gives to the next \<^verbatim>\<open>os.Pipe()\<close> (\<open>None\<close>: it succeeds). A successful \<^verbatim>\<open>os.Pipe()\<close> opens two
  descriptors that were not open before. An \<^verbatim>\<open>*os.File\<close> is \<open>Some fd\<close>, or \<open>None\<close> for \<^verbatim>\<open>nil\<close>.
\<close>

record os_state =
  open_files :: "nat list"
  pipes :: "(nat \<times> nat) list"
  pipe_failure :: "error option"

definition unused_fd :: "nat list \<Rightarrow> nat" where
  "unused_fd fds = Suc (fold max fds 2)"

definition os_Pipe :: "os_state \<Rightarrow> (nat option \<times> nat option \<times> error option) \<times> os_state" where
  "os_Pipe os =
    (case pipe_failure os of
       Some e \<Rightarrow> ((None, None, Some e), os)
     | None \<Rightarrow>
        (let r = unused_fd (open_files os);
             w = unused_fd (r # open_files os)
         in ((Some r, Some w, None),
             os\<lparr>open_files := open_files os @ [r, w], pipes := pipes os @ [(r, w)]\<rparr>)))"

definition file_Close :: "nat option \<Rightarrow> os_state \<Rightarrow> os_state" where
  "file_Close f os =
    (case f of None \<Rightarrow> os | Some fd \<Rightarrow> os\<lparr>open_files := removeAll fd (open_files os)\<rparr>)"

text \<open>
  Modelled from the spec: \<^verbatim>\<open>cmdI\<close>, the runner's wrapper of the child process command
  (declared outside src/). \<^verbatim>\<open>setExtraFiles\<close> stores the files the child is to inherit;
  \<^verbatim>\<open>Start\<close> either fails with the error the launch raises (\<open>start_failure\<close>) or launches the
  child, "passes the write end to the child process as an inherited descriptor": entry \<open>i\<close>
  of the extra files becomes descriptor \<open>3 + i\<close> of the child, "fds counting from 3" in the
  words of the source.
\<close>

record cmd_state =
  ExtraFiles :: "nat option list"
  start_failure :: "error option"
  started :: bool
  child_fds :: "(nat \<times> nat) list"

definition cmd_setExtraFiles :: "nat option list \<Rightarrow> cmd_state \<Rightarrow> cmd_state" where
  "cmd_setExtraFiles extraFiles cmd = cmd\<lparr>ExtraFiles := extraFiles\<rparr>"

definition inherited_fds :: "nat option list \<Rightarrow> (nat \<times> nat) list" where
  "inherited_fds extraFiles =
     concat (map (\<lambda>(i, f). case f of None \<Rightarrow> [] | Some fd \<Rightarrow> [(3 + i, fd)])
                 (zip [0..<length extraFiles] extraFiles))"

definition cmd_Start :: "cmd_state \<Rightarrow> error option \<times> cmd_state" where
  "cmd_Start cmd =
    (case start_failure cmd of
       Some e \<Rightarrow> (Some e, cmd)
     | None \<Rightarrow> (None, cmd\<lparr>started := True, child_fds := inherited_fds (ExtraFiles cmd)\<rparr>))"

text \<open>\<^verbatim>\<open>pipe\<close>: the read end the runner keeps and the write end; \<^verbatim>\<open>pipe{}\<close> has neither.\<close>

record pipe =
  Reader :: "nat option"
  File :: "nat option"

definition pipe_zero :: pipe where
  "pipe_zero = \<lparr>Reader = None, File = None\<rparr>"

text \<open>\<^verbatim>\<open>gravityRunner.getPipeName\<close> and \<^verbatim>\<open>gravityRunner.start\<close>; neither reads its receiver.\<close>

definition getPipeName :: "'c \<Rightarrow> string" where
  "getPipeName c = ''fd:3''"

definition start :: "'c \<Rightarrow> cmd_state \<Rightarrow> os_state \<Rightarrow> (pipe \<times> error option) \<times> cmd_state \<times> os_state" where
  "start c cmd os =
    (case os_Pipe os of ((readFile, writeFile, err), os) \<Rightarrow>
     case err of
       Some e \<Rightarrow> ((pipe_zero, Some (Wrap e ''error making a pipe'')), cmd, os)
     | None \<Rightarrow>
        (let p = \<lparr>Reader = readFile, File = writeFile\<rparr>;
             cmd = cmd_setExtraFiles [writeFile] cmd
         in case cmd_Start cmd of (err, cmd) \<Rightarrow>
            case err of
              Some e \<Rightarrow>
                (let os = file_Close writeFile os;
                     os = file_Close readFile os
                 in ((pipe_zero, Some (Wrap e ''error starting gravity'')), cmd, os))
            | None \<Rightarrow> ((p, None), cmd, os)))"

text \<open>A process with descriptors 0, 1, 2 and 5 open, and a command not yet started.\<close>

definition example_os :: "error option \<Rightarrow> os_state" where
  "example_os failure = \<lparr>open_files = [0, 1, 2, 5], pipes = [], pipe_failure = failure\<rparr>"

definition example_cmd :: "error option \<Rightarrow> cmd_state" where
  "example_cmd failure =
     \<lparr>ExtraFiles = [], start_failure = failure, started = False, child_fds = []\<rparr>"

section \<open>services/orbitr/internal/ingest/processors: the transaction processor\<close>

text \<open>
  \<^verbatim>\<open>history.TransactionBatchInsertBuilder\<close> is an interface with \<^verbatim>\<open>Add\<close> and \<^verbatim>\<open>Exec\<close>, and
  \<^verbatim>\<open>history.QTransactions\<close> makes builders for the two tables; both are declared outside
  src/. A builder is a state \<open>'b\<close>; the methods take it and return the error and the new
  state.
\<close>

record 'b QTransactions =
  NewTransactionBatchInsertBuilder :: "int \<Rightarrow> 'b"
  NewTransactionFilteredTmpBatchInsertBuilder :: "int \<Rightarrow> 'b"
  batch_Add :: "LedgerTransaction \<Rightarrow> 32 word \<Rightarrow> 'b \<Rightarrow> error option \<times> 'b"
  batch_Exec :: "'b \<Rightarrow> error option \<times> 'b"

record 'b TransactionProcessor =
  transactionsQ :: "'b QTransactions"
  sequence :: "32 word"
  batch :: 'b

definition maxBatchSize :: int where
  "maxBatchSize = 100000"

definition NewTransactionFilteredTmpProcessor ::
  "'b QTransactions \<Rightarrow> 32 word \<Rightarrow> 'b TransactionProcessor" where
  "NewTransactionFilteredTmpProcessor q seq =
     \<lparr>transactionsQ = q,
      sequence = seq,
      batch = NewTransactionFilteredTmpBatchInsertBuilder q maxBatchSize\<rparr>"

definition NewTransactionProcessor ::
  "'b QTransactions \<Rightarrow> 32 word \<Rightarrow> 'b TransactionProcessor" where
  "NewTransactionProcessor q seq =
     \<lparr>transactionsQ = q,
      sequence = seq,
      batch = NewTransactionBatchInsertBuilder q maxBatchSize\<rparr>"

definition ProcessTransaction ::
  "LedgerTransaction \<Rightarrow> 'b TransactionProcessor \<Rightarrow> error option \<times> 'b TransactionProcessor" where
  "ProcessTransaction transaction p =
    (case batch_Add (transactionsQ p) transaction (sequence p) (batch p) of (err, b) \<Rightarrow>
     case err of
       Some e \<Rightarrow> (Some (Wrap e ''Error batch inserting transaction rows''), p\<lparr>batch := b\<rparr>)
     | None \<Rightarrow> (None, p\<lparr>batch := b\<rparr>))"

definition Commit :: "'b TransactionProcessor \<Rightarrow> error option \<times> 'b TransactionProcessor" where
  "Commit p =
    (case batch_Exec (transactionsQ p) (batch p) of (err, b) \<Rightarrow>
     case err of
       Some e \<Rightarrow> (Some (Wrap e ''Error flushing transaction batch''), p\<lparr>batch := b\<rparr>)
     | None \<Rightarrow> (None, p\<lparr>batch := b\<rparr>))"

text \<open>
  Modelled from the spec: the batch insert builder of the \<^verbatim>\<open>history\<close> package (not under
  src/). "Processors accumulate rows in memory and flush via batched inserts capped at a
  fixed maximum batch size": \<^verbatim>\<open>Add\<close> appends a row to the rows held in memory and flushes
  them as one insert statement once they number the maximum batch size; \<^verbatim>\<open>Exec\<close> flushes
  the rows held, if any. \<open>statements\<close> lists the rows of each insert statement flushed so
  far.
\<close>

record batch_insert_builder =
  Table :: string
  MaxBatchSize :: int
  pending_rows :: "(LedgerTransaction \<times> 32 word) list"
  statements :: "(LedgerTransaction \<times> 32 word) list list"

definition builder_Exec :: "batch_insert_builder \<Rightarrow> error option \<times> batch_insert_builder" where
  "builder_Exec b =
    (if pending_rows b = [] then (None, b)
     else (None, b\<lparr>statements := statements b @ [pending_rows b], pending_rows := []\<rparr>))"

definition builder_Add ::
  "LedgerTransaction \<Rightarrow> 32 word \<Rightarrow> batch_insert_builder \<Rightarrow> error option \<times> batch_insert_builder" where
  "builder_Add transaction seq b =
    (let b = b\<lparr>pending_rows := pending_rows b @ [(transaction, seq)]\<rparr>
     in if int (length (pending_rows b)) \<ge> MaxBatchSize b then builder_Exec b else (None, b))"

definition history_Q :: "batch_insert_builder QTransactions" where
  "history_Q =
    \<lparr>NewTransactionBatchInsertBuilder = (\<lambda>n.
       \<lparr>Table = ''history_transactions'', MaxBatchSize = n, pending_rows = [],
        statements = []\<rparr>),
     NewTransactionFilteredTmpBatchInsertBuilder = (\<lambda>n.
       \<lparr>Table = ''history_transactions_filtered_tmp'', MaxBatchSize = n, pending_rows = [],
        statements = []\<rparr>),
     batch_Add = builder_Add,
     batch_Exec = builder_Exec\<rparr>"

text \<open>
  The calls a pipeline makes on one processor, in order: \<^verbatim>\<open>ProcessTransaction\<close> for each
  transaction and \<^verbatim>\<open>Commit\<close>; \<open>run_processor\<close> makes them and returns the processor they
  leave (the modelled builder returns no errors).
\<close>

datatype processor_call = DoProcessTransaction LedgerTransaction | DoCommit

fun run_processor ::
  "processor_call list \<Rightarrow> 'b TransactionProcessor \<Rightarrow> 'b TransactionProcessor" where
  "run_processor [] p = p"
| "run_processor (DoProcessTransaction tx # cs) p = run_processor cs (snd (ProcessTransaction tx p))"
| "run_processor (DoCommit # cs) p = run_processor cs (snd (Commit p))"

text \<open>
  The invariant of a processor over the modelled builder: the builder's maximum is
  \<open>maxBatchSize\<close>, fewer rows than that are held in memory, and no statement flushed so far
  has more rows than that.
\<close>

definition capped :: "batch_insert_builder TransactionProcessor \<Rightarrow> bool" where
  "capped p \<longleftrightarrow>
     transactionsQ p = history_Q \<and> MaxBatchSize (batch p) = maxBatchSize \<and>
     int (length (pending_rows (batch p))) < maxBatchSize \<and>
     (\<forall>stmt \<in> set (statements (batch p)). int (length stmt) \<le> maxBatchSize)"

section \<open>network: hashing a transaction for signing\<close>

text \<open>
  \<^verbatim>\<open>strings.TrimSpace\<close> of the Go library, on the bytes of a string: it removes the leading
  and the trailing white space "as defined by Unicode", rune by rune. The runes that
  \<^verbatim>\<open>unicode.IsSpace\<close> accepts are tab, line feed, vertical tab, form feed, carriage return
  and space, U+0085, U+00A0, U+1680, U+2000 to U+200A, U+2028, U+2029, U+202F, U+205F and
  U+3000; \<open>space_runes\<close> lists their UTF-8 encodings. A byte sequence that is no such
  encoding (another rune, or invalid UTF-8) stops the trimming.
\<close>

definition space_runes :: "string list" where
  "space_runes =
    [[CHR 0x09], [CHR 0x0A], [CHR 0x0B], [CHR 0x0C], [CHR 0x0D], [CHR 0x20],
     [CHR 0xC2, CHR 0x85], [CHR 0xC2, CHR 0xA0],
     [CHR 0xE1, CHR 0x9A, CHR 0x80],
     [CHR 0xE2, CHR 0x80, CHR 0x80], [CHR 0xE2, CHR 0x80, CHR 0x81],
     [CHR 0xE2, CHR 0x80, CHR 0x82], [CHR 0xE2, CHR 0x80, CHR 0x83],
     [CHR 0xE2, CHR 0x80, CHR 0x84], [CHR 0xE2, CHR 0x80, CHR 0x85],
     [CHR 0xE2, CHR 0x80, CHR 0x86], [CHR 0xE2, CHR 0x80, CHR 0x87],
     [CHR 0xE2, CHR 0x80, CHR 0x88], [CHR 0xE2, CHR 0x80, CHR 0x89],
     [CHR 0xE2, CHR 0x80, CHR 0x8A],
     [CHR 0xE2, CHR 0x80, CHR 0xA8], [CHR 0xE2, CHR 0x80, CHR 0xA9],
     [CHR 0xE2, CHR 0x80, CHR 0xAF],
     [CHR 0xE2, CHR 0x81, CHR 0x9F],
     [CHR 0xE3, CHR 0x80, CHR 0x80]]"

text \<open>
  \<open>leading_space encs s\<close>: the number of bytes of the encoding in \<open>encs\<close> that \<open>s\<close> starts
  with, or 0 when it starts with none. \<open>trim_leading encs\<close> removes such encodings from
  the front until none is left; the trailing white space is the leading white space of
  the reversed string, under the reversed encodings.
\<close>

definition leading_space :: "string list \<Rightarrow> string \<Rightarrow> nat" where
  "leading_space encs s =
    (case find (\<lambda>e. e \<noteq> [] \<and> take (length e) s = e) encs of
       None \<Rightarrow> 0
     | Some e \<Rightarrow> length e)"

function trim_leading :: "string list \<Rightarrow> string \<Rightarrow> string" where
  "trim_leading encs s =
    (if leading_space encs s = 0 then s else trim_leading encs (drop (leading_space encs s) s))"
  by pat_completeness auto
termination
proof (relation "measure (\<lambda>(encs, s). length s)")
  show "wf (measure (\<lambda>(encs, s). length s))" by simp
next
  fix encs :: "string list" and s :: string
  assume n: "leading_space encs s \<noteq> 0"
  then obtain e where "find (\<lambda>e. e \<noteq> [] \<and> take (length e) s = e) encs = Some e"
    by (auto simp: leading_space_def split: option.splits)
  then have "e \<noteq> [] \<and> take (length e) s = e"
    by (metis (mono_tags, lifting) find_Some_iff)
  then have "s \<noteq> []" by auto
  with n show "((encs, drop (leading_space encs s) s), (encs, s)) \<in> measure (\<lambda>(encs, s). length s)"
    by simp
qed

declare trim_leading.simps [simp del]

definition TrimSpace :: "string \<Rightarrow> string" where
  "TrimSpace s = rev (trim_leading (map rev space_runes) (rev (trim_leading space_runes s)))"

text \<open>
  The spec's words for the same thing: a string "consists only of whitespace" when it is
  a concatenation of white space runes (the empty string is the concatenation of none).
\<close>

definition whitespace_only :: "string \<Rightarrow> bool" where
  "whitespace_only s \<longleftrightarrow> (\<exists>ws. set ws \<subseteq> set space_runes \<and> s = concat ws)"

definition prefix_free :: "string list \<Rightarrow> bool" where
  "prefix_free encs \<longleftrightarrow>
     list_all (\<lambda>a. a \<noteq> [] \<and> list_all (\<lambda>b. take (length a) b = a \<longrightarrow> a = b) encs) encs"

text \<open>
  The types of the \<^verbatim>\<open>xdr\<close> package that \<^verbatim>\<open>network\<close> handles (the package is outside src/).
  Memos, operations, preconditions, time bounds and the fee bump transaction are passed on
  unread: they are opaque values. A \<^verbatim>\<open>Uint256\<close> is a [32]byte, here a 256-bit word; a
  \<^verbatim>\<open>MuxedAccount\<close> has its key type and, for the key type Ed25519, the key.
  \<^verbatim>\<open>Transaction\<close> and \<^verbatim>\<open>TransactionV0\<close> share the
  fields \<^verbatim>\<open>Fee\<close>, \<^verbatim>\<open>Memo\<close>, \<^verbatim>\<open>Operations\<close> and \<^verbatim>\<open>SeqNum\<close>. The arms of a union are pointers:
  \<open>None\<close> is \<^verbatim>\<open>nil\<close>. The arm \<^verbatim>\<open>FeeBump\<close> of the envelope is named \<open>FeeBumpEnvelope\<close> here, the
  field \<^verbatim>\<open>Tx\<close> of the three envelopes \<open>V0_Tx\<close>, \<open>V1_Tx\<close> and \<open>FeeBump_Tx\<close>, and the fields
  \<^verbatim>\<open>Type\<close> of the envelope and of the tagged transaction \<open>Type\<close> and \<open>TaggedType\<close>.
\<close>

datatype EnvelopeType =
    EnvelopeTypeEnvelopeTypeTxV0
  | EnvelopeTypeEnvelopeTypeScp
  | EnvelopeTypeEnvelopeTypeTx
  | EnvelopeTypeEnvelopeTypeAuth
  | EnvelopeTypeEnvelopeTypeScpvalue
  | EnvelopeTypeEnvelopeTypeTxFeeBump
  | EnvelopeTypeEnvelopeTypeOpId
  | EnvelopeTypeEnvelopeTypePoolRevokeOpId
  | EnvelopeTypeEnvelopeTypeContractId
  | EnvelopeTypeEnvelopeTypeSorobanAuthorization

datatype CryptoKeyType =
    CryptoKeyTypeKeyTypeEd25519
  | CryptoKeyTypeKeyTypePreAuthTx
  | CryptoKeyTypeKeyTypeHashX
  | CryptoKeyTypeKeyTypeEd25519SignedPayload
  | CryptoKeyTypeKeyTypeMuxedEd25519

type_synonym Uint256 = "256 word"

datatype MuxedAccount = MuxedAccount (AccountType: CryptoKeyType) (Ed25519: "Uint256 option")

type_synonym Preconditions = string
type_synonym TimeBounds = string
type_synonym FeeBumpTransaction = string

record transaction_fields =
  Fee :: "32 word"
  Memo :: string
  Operations :: "string list"
  SeqNum :: "64 word"

record Transaction = transaction_fields +
  SourceAccount :: MuxedAccount
  Cond :: Preconditions

record TransactionV0 = transaction_fields +
  SourceAccountEd25519 :: Uint256
  TimeBounds :: "TimeBounds option"

datatype TransactionV0Envelope = TransactionV0Envelope (V0_Tx: TransactionV0) "string list"
datatype TransactionV1Envelope = TransactionV1Envelope (V1_Tx: Transaction) "string list"
datatype FeeBumpTransactionEnvelope =
  FeeBumpTransactionEnvelope (FeeBump_Tx: FeeBumpTransaction) "string list"

record TransactionEnvelope =
  Type :: EnvelopeType
  V0 :: "TransactionV0Envelope option"
  V1 :: "TransactionV1Envelope option"
  FeeBumpEnvelope :: "FeeBumpTransactionEnvelope option"

record TransactionSignaturePayloadTaggedTransaction =
  TaggedType :: EnvelopeType
  Tx :: "Transaction option"
  FeeBump :: "FeeBumpTransaction option"

record TransactionSignaturePayload =
  NetworkId :: "8 word list"
  TaggedTransaction :: TransactionSignaturePayloadTaggedTransaction

text \<open>
  The functions of the packages \<^verbatim>\<open>hash\<close> and \<^verbatim>\<open>xdr\<close> that \<^verbatim>\<open>network\<close> calls, as parameters:
  \<^verbatim>\<open>hash.Hash\<close> (the bytes to a [32]byte), \<^verbatim>\<open>xdr.Marshal\<close> (the payload to the bytes written
  and an error), \<^verbatim>\<open>xdr.NewPreconditionsWithTimeBounds\<close>, and \<^verbatim>\<open>xdr.NewMuxedAccount\<close> for the key
  types other than Ed25519.
\<close>

record xdr_functions =
  hash_Hash :: "string \<Rightarrow> 8 word list"
  xdr_Marshal :: "TransactionSignaturePayload \<Rightarrow> string \<times> error option"
  xdr_NewMuxedAccount :: "CryptoKeyType \<Rightarrow> Uint256 \<Rightarrow> MuxedAccount \<times> error option"
  xdr_NewPreconditionsWithTimeBounds :: "TimeBounds option \<Rightarrow> Preconditions"

text \<open>
  Modelled from the spec: \<^verbatim>\<open>xdr.NewMuxedAccount\<close> (the \<^verbatim>\<open>xdr\<close> package is not under src/), called
  with a \<^verbatim>\<open>Uint256\<close> value. The decoder of the spec yields "typed in-memory structures": the
  source key of a V0 transaction is a value of the 32-byte key type, which is the value an
  account of key type Ed25519 holds. For that key type the constructor returns the account
  with the key and no error; for the other key types, which \<^verbatim>\<open>network\<close> never passes, the
  result is the parameter's.
\<close>

definition NewMuxedAccount ::
  "xdr_functions \<Rightarrow> CryptoKeyType \<Rightarrow> Uint256 \<Rightarrow> MuxedAccount \<times> error option" where
  "NewMuxedAccount X aType v =
    (if aType = CryptoKeyTypeKeyTypeEd25519 then (MuxedAccount aType (Some v), None)
     else xdr_NewMuxedAccount X aType v)"

text \<open>\<^verbatim>\<open>[32]byte{}\<close>, the zero hash.\<close>

definition zero_hash :: "8 word list" where
  "zero_hash = replicate 32 0"

text \<open>
  An envelope carries a transaction when its type is one of the three transaction types
  and the arm of that type is present.
\<close>

definition carries_transaction :: "TransactionEnvelope \<Rightarrow> bool" where
  "carries_transaction envelope \<longleftrightarrow>
     (Type envelope = EnvelopeTypeEnvelopeTypeTx \<and> V1 envelope \<noteq> None) \<or>
     (Type envelope = EnvelopeTypeEnvelopeTypeTxV0 \<and> V0 envelope \<noteq> None) \<or>
     (Type envelope = EnvelopeTypeEnvelopeTypeTxFeeBump \<and> FeeBumpEnvelope envelope \<noteq> None)"

text \<open>A nil pointer dereference panics; a function that can panic returns \<open>Inl\<close> then.\<close>

datatype panic = NilPointerDereference

definition ID :: "xdr_functions \<Rightarrow> string \<Rightarrow> 8 word list" where
  "ID X passphrase = hash_Hash X passphrase"

definition hashTx ::
  "xdr_functions \<Rightarrow> TransactionSignaturePayloadTaggedTransaction \<Rightarrow> string \<Rightarrow>
     8 word list \<times> error option" where
  "hashTx X tx passphrase =
    (if TrimSpace passphrase = '''' then (zero_hash, Some (New ''empty network passphrase''))
     else
       (let payload = \<lparr>NetworkId = ID X passphrase, TaggedTransaction = tx\<rparr>;
            (txBytes, err) = xdr_Marshal X payload
        in case err of
             Some e \<Rightarrow> (zero_hash, Some (Wrap e ''marshal tx failed''))
           | None \<Rightarrow> (hash_Hash X txBytes, None)))"

definition HashTransaction ::
  "xdr_functions \<Rightarrow> Transaction \<Rightarrow> string \<Rightarrow> 8 word list \<times> error option" where
  "HashTransaction X tx passphrase =
    (let taggedTx = \<lparr>TaggedType = EnvelopeTypeEnvelopeTypeTx, Tx = Some tx, FeeBump = None\<rparr>
     in hashTx X taggedTx passphrase)"

definition HashFeeBumpTransaction ::
  "xdr_functions \<Rightarrow> FeeBumpTransaction \<Rightarrow> string \<Rightarrow> 8 word list \<times> error option" where
  "HashFeeBumpTransaction X tx passphrase =
    (let taggedTx = \<lparr>TaggedType = EnvelopeTypeEnvelopeTypeTxFeeBump, Tx = None, FeeBump = Some tx\<rparr>
     in hashTx X taggedTx passphrase)"

definition HashTransactionV0 ::
  "xdr_functions \<Rightarrow> TransactionV0 \<Rightarrow> string \<Rightarrow> 8 word list \<times> error option" where
  "HashTransactionV0 X tx passphrase =
    (case NewMuxedAccount X CryptoKeyTypeKeyTypeEd25519 (SourceAccountEd25519 tx) of
       (sa, err) \<Rightarrow>
        (case err of
           Some e \<Rightarrow> (zero_hash, Some e)
         | None \<Rightarrow>
            (let v1Tx = \<lparr>Fee = Fee tx, Memo = Memo tx, Operations = Operations tx,
                         SeqNum = SeqNum tx, SourceAccount = sa,
                         Cond = xdr_NewPreconditionsWithTimeBounds X (TimeBounds tx)\<rparr>
             in HashTransaction X v1Tx passphrase)))"

definition HashTransactionInEnvelope ::
  "xdr_functions \<Rightarrow> TransactionEnvelope \<Rightarrow> string \<Rightarrow> panic + (8 word list \<times> error option)" where
  "HashTransactionInEnvelope X envelope passphrase =
    (let hash = zero_hash in
     case Type envelope of
       EnvelopeTypeEnvelopeTypeTx \<Rightarrow>
         (case V1 envelope of
            None \<Rightarrow> Inl NilPointerDereference
          | Some v1 \<Rightarrow> Inr (HashTransaction X (V1_Tx v1) passphrase))
     | EnvelopeTypeEnvelopeTypeTxV0 \<Rightarrow>
         (case V0 envelope of
            None \<Rightarrow> Inl NilPointerDereference
          | Some v0 \<Rightarrow> Inr (HashTransactionV0 X (V0_Tx v0) passphrase))
     | EnvelopeTypeEnvelopeTypeTxFeeBump \<Rightarrow>
         (case FeeBumpEnvelope envelope of
            None \<Rightarrow> Inl NilPointerDereference
          | Some fb \<Rightarrow> Inr (HashFeeBumpTransaction X (FeeBump_Tx fb) passphrase))
     | _ \<Rightarrow> Inr (hash, Some (New ''invalid transaction type'')))"

text \<open>
  Stand-ins for the \<^verbatim>\<open>xdr\<close> and \<^verbatim>\<open>hash\<close> functions in worked examples: the hash pads or cuts
  the bytes to 32, marshalling concatenates the network id and the operations, and the
  account constructor rejects the key types other than Ed25519.
\<close>

definition example_xdr :: xdr_functions where
  "example_xdr =
    \<lparr>hash_Hash = (\<lambda>bs. take 32 (map (\<lambda>c. of_nat (of_char c)) bs @ replicate 32 1)),
     xdr_Marshal = (\<lambda>p. (map (\<lambda>b. char_of (unat b)) (NetworkId p) @
        (case Tx (TaggedTransaction p) of None \<Rightarrow> ''bump'' | Some t \<Rightarrow> concat (Operations t)),
        None)),
     xdr_NewMuxedAccount = (\<lambda>k key. (MuxedAccount k None, Some (New ''invalid value''))),
     xdr_NewPreconditionsWithTimeBounds = (\<lambda>tb. case tb of None \<Rightarrow> ''none'' | Some t \<Rightarrow> t)\<rparr>"

definition example_v0 :: "Uint256 \<Rightarrow> TransactionV0" where
  "example_v0 key = \<lparr>Fee = 100, Memo = ''memo'', Operations = [''payment''], SeqNum = 5,
     SourceAccountEd25519 = key, TimeBounds = None\<rparr>"

definition example_v1 :: Transaction where
  "example_v1 = \<lparr>Fee = 100, Memo = ''memo'', Operations = [''payment''], SeqNum = 5,
     SourceAccount = MuxedAccount CryptoKeyTypeKeyTypeEd25519 (Some 7), Cond = ''none''\<rparr>"

definition TestNetworkPassphrase :: string where
  "TestNetworkPassphrase = ''Test Lantah Network ; 2023''"

text \<open>A passphrase of a space, a tab and a no-break space (U+00A0).\<close>

definition blank_passphrase :: string where
  "blank_passphrase = [CHR 0x20, CHR 0x09, CHR 0xC2, CHR 0xA0]"

section \<open>Properties of the loop combinator\<close>

lemma for_loop_iterations:
  "iterations n body s0 = Some s \<Longrightarrow> for_loop body s0 = for_loop body s"
proof (induction n arbitrary: s0)
  case 0
  then show ?case by simp
next
  case (Suc n)
  then show ?case
    by (cases "body s0") (simp_all add: for_loop.simps [of body s0])
qed

lemma for_loop_returns:
  "iterations n body s0 = Some s \<Longrightarrow> body s = Inl r \<Longrightarrow> for_loop body s0 = Some r"
  using for_loop_iterations [of n body s0 s] by (simp add: for_loop.simps [of body s])

lemma for_loop_Some_D:
  fixes body :: "'s \<Rightarrow> 'r + 's"
  assumes "for_loop body s0 = Some r"
  shows "\<exists>n s. iterations n body s0 = Some s \<and> body s = Inl r"
proof (rule for_loop.raw_induct
    [where P = "\<lambda>b s0 r. \<exists>n s. iterations n b s0 = Some s \<and> b s = Inl r", OF _ assms])
  fix f :: "('s \<Rightarrow> 'r + 's) \<Rightarrow> 's \<Rightarrow> 'r option" and b s1 y
  assume IH: "\<And>b s y. f b s = Some y \<Longrightarrow> \<exists>n t. iterations n b s = Some t \<and> b t = Inl y"
    and step: "(case b s1 of Inl r \<Rightarrow> Some r | Inr s' \<Rightarrow> f b s') = Some y"
  show "\<exists>n t. iterations n b s1 = Some t \<and> b t = Inl y"
  proof (cases "b s1")
    case (Inl a)
    with step have "iterations 0 b s1 = Some s1 \<and> b s1 = Inl y" by simp
    then show ?thesis by blast
  next
    case (Inr s2)
    with step have "f b s2 = Some y" by simp
    from IH [OF this] obtain n t where "iterations n b s2 = Some t" "b t = Inl y" by blast
    with Inr have "iterations (Suc n) b s1 = Some t \<and> b t = Inl y" by simp
    then show ?thesis by blast
  qed
qed

lemma iterations_Suc_end:
  "iterations n body s0 = Some s \<Longrightarrow> body s = Inr s' \<Longrightarrow> iterations (Suc n) body s0 = Some s'"
proof (induction n arbitrary: s0)
  case 0
  then show ?case by simp
next
  case (Suc n)
  then show ?case by (cases "body s0") simp_all
qed


section \<open>One iteration of the streaming loops\<close>

lemma tx_body_read_EOF:
  "reader_Read P w = ((tx, Some EOF), w1) \<Longrightarrow>
   StreamLedgerTransactions_body P (w, cs) = Inl (None, w1, cs @ [CallRead])"
  by (simp add: StreamLedgerTransactions_body_def)

lemma tx_body_read_error:
  "reader_Read P w = ((tx, Some e), w1) \<Longrightarrow> e \<noteq> EOF \<Longrightarrow>
   StreamLedgerTransactions_body P (w, cs) =
     Inl (Some (Wrap e ''could not read transaction''), w1, cs @ [CallRead])"
  by (simp add: StreamLedgerTransactions_body_def)

lemma tx_body_filter_error:
  "reader_Read P w = ((tx, None), w1) \<Longrightarrow>
   txFilterer_FilterTransaction P tx w1 = ((include, Some e), w2) \<Longrightarrow>
   StreamLedgerTransactions_body P (w, cs) =
     Inl (Some (Wrapf e ''could not filter transaction %v'' (Index tx)), w2,
          cs @ [CallRead, CallFilterTransaction tx])"
  by (simp add: StreamLedgerTransactions_body_def)

lemma tx_body_excluded:
  "reader_Read P w = ((tx, None), w1) \<Longrightarrow>
   txFilterer_FilterTransaction P tx w1 = ((False, None), w2) \<Longrightarrow>
   filteredTxProcessor_ProcessTransaction P tx w2 = (r, w3) \<Longrightarrow>
   StreamLedgerTransactions_body P (w, cs) =
     (case r of
        Some e \<Rightarrow> Inl (Some (Wrapf e ''could not process transaction %v'' (Index tx)), w3,
                    cs @ [CallRead, CallFilterTransaction tx, CallFilteredProcessTransaction tx])
      | None \<Rightarrow> Inr (w3, cs @ [CallRead, CallFilterTransaction tx,
                    CallFilteredProcessTransaction tx,
                    CallDebugf ''Filters did not find match on transaction, dropping this tx with hash %v''
                      (TransactionHash tx)]))"
  by (simp add: StreamLedgerTransactions_body_def split: option.splits)

lemma tx_body_included:
  "reader_Read P w = ((tx, None), w1) \<Longrightarrow>
   txFilterer_FilterTransaction P tx w1 = ((True, None), w2) \<Longrightarrow>
   txProcessor_ProcessTransaction P tx w2 = (r, w3) \<Longrightarrow>
   StreamLedgerTransactions_body P (w, cs) =
     (case r of
        Some e \<Rightarrow> Inl (Some (Wrapf e ''could not process transaction %v'' (Index tx)), w3,
                    cs @ [CallRead, CallFilterTransaction tx, CallProcessTransaction tx])
      | None \<Rightarrow> Inr (w3, cs @ [CallRead, CallFilterTransaction tx, CallProcessTransaction tx]))"
  by (simp add: StreamLedgerTransactions_body_def split: option.splits)

lemma tx_body_nil_D:
  "StreamLedgerTransactions_body P (w, cs) = Inl (None, s') \<Longrightarrow>
   \<exists>tx w1. reader_Read P w = ((tx, Some EOF), w1) \<and> s' = (w1, cs @ [CallRead])"
  by (auto simp: StreamLedgerTransactions_body_def Let_def split: prod.splits option.splits if_splits)

lemma tx_body_error_D:
  "StreamLedgerTransactions_body P (w, cs) = Inl (Some e, s') \<Longrightarrow>
   e \<noteq> Wrap EOF ''could not read transaction''"
  by (auto simp: StreamLedgerTransactions_body_def Let_def split: prod.splits option.splits if_splits)

lemma change_body_read_EOF:
  "changeReader_Read P w = ((c, Some EOF), w1) \<Longrightarrow>
   StreamChanges_body P (w, cs) = Inl (None, w1, cs @ [CallRead])"
  by (simp add: StreamChanges_body_def)

lemma change_body_read_error:
  "changeReader_Read P w = ((c, Some e), w1) \<Longrightarrow> e \<noteq> EOF \<Longrightarrow>
   StreamChanges_body P (w, cs) =
     Inl (Some (Wrap e ''could not read transaction''), w1, cs @ [CallRead])"
  by (simp add: StreamChanges_body_def)

lemma change_body_process:
  "changeReader_Read P w = ((c, None), w1) \<Longrightarrow>
   changeProcessor_ProcessChange P c w1 = (r, w2) \<Longrightarrow>
   StreamChanges_body P (w, cs) =
     (case r of
        Some e \<Rightarrow> Inl (Some (Wrap e ''could not process change''), w2,
                    cs @ [CallRead, CallProcessChange c])
      | None \<Rightarrow> Inr (w2, cs @ [CallRead, CallProcessChange c]))"
  by (simp add: StreamChanges_body_def split: option.splits)

lemma change_body_nil_D:
  "StreamChanges_body P (w, cs) = Inl (None, s') \<Longrightarrow>
   \<exists>c w1. changeReader_Read P w = ((c, Some EOF), w1) \<and> s' = (w1, cs @ [CallRead])"
  by (auto simp: StreamChanges_body_def Let_def split: prod.splits option.splits if_splits)

lemma change_body_error_D:
  "StreamChanges_body P (w, cs) = Inl (Some e, s') \<Longrightarrow>
   e \<noteq> Wrap EOF ''could not read transaction''"
  by (auto simp: StreamChanges_body_def Let_def split: prod.splits option.splits if_splits)

lemmas example_defs = example_pipeline_def example_change_pipeline_def scripted_Read_def
  example_tx_def example_change_def StreamLedgerTransactions_body_def StreamChanges_body_def

section \<open>Claims about the streaming driver\<close>

text \<open>
  C1. The driver stops on the first error. Let an iteration of \<^verbatim>\<open>StreamLedgerTransactions\<close>
  start in world \<open>w\<close> with call log \<open>cs\<close>, all iterations before it having run to their end.
  If \<^verbatim>\<open>Read\<close> returns an error other than end-of-data, or \<^verbatim>\<open>FilterTransaction\<close> returns an
  error, or the processor chosen by the filter returns an error, then the whole call returns
  that error wrapped, and the final call log is \<open>cs\<close> followed by the calls of this iteration
  up to and including the failing one: nothing is called after it. The same holds for
  \<^verbatim>\<open>StreamChanges\<close> with \<^verbatim>\<open>Read\<close> and \<^verbatim>\<open>ProcessChange\<close>.
\<close>

theorem stream_stops_on_first_error:
  "(iterations n (StreamLedgerTransactions_body P) s0 = Some (w, cs) \<longrightarrow>
      (\<forall>tx e w1. reader_Read P w = ((tx, Some e), w1) \<and> e \<noteq> EOF \<longrightarrow>
         StreamLedgerTransactions P s0 =
           Some (Some (Wrap e ''could not read transaction''), w1, cs @ [CallRead])) \<and>
      (\<forall>tx w1 incl e w2.
         reader_Read P w = ((tx, None), w1) \<and>
         txFilterer_FilterTransaction P tx w1 = ((incl, Some e), w2) \<longrightarrow>
         StreamLedgerTransactions P s0 =
           Some (Some (Wrapf e ''could not filter transaction %v'' (Index tx)), w2,
                 cs @ [CallRead, CallFilterTransaction tx])) \<and>
      (\<forall>tx w1 w2 e w3.
         reader_Read P w = ((tx, None), w1) \<and>
         txFilterer_FilterTransaction P tx w1 = ((False, None), w2) \<and>
         filteredTxProcessor_ProcessTransaction P tx w2 = (Some e, w3) \<longrightarrow>
         StreamLedgerTransactions P s0 =
           Some (Some (Wrapf e ''could not process transaction %v'' (Index tx)), w3,
                 cs @ [CallRead, CallFilterTransaction tx, CallFilteredProcessTransaction tx])) \<and>
      (\<forall>tx w1 w2 e w3.
         reader_Read P w = ((tx, None), w1) \<and>
         txFilterer_FilterTransaction P tx w1 = ((True, None), w2) \<and>
         txProcessor_ProcessTransaction P tx w2 = (Some e, w3) \<longrightarrow>
         StreamLedgerTransactions P s0 =
           Some (Some (Wrapf e ''could not process transaction %v'' (Index tx)), w3,
                 cs @ [CallRead, CallFilterTransaction tx, CallProcessTransaction tx]))) \<and>
   (iterations m (StreamChanges_body Q) t0 = Some (v, ds) \<longrightarrow>
      (\<forall>c e v1. changeReader_Read Q v = ((c, Some e), v1) \<and> e \<noteq> EOF \<longrightarrow>
         StreamChanges Q t0 =
           Some (Some (Wrap e ''could not read transaction''), v1, ds @ [CallRead])) \<and>
      (\<forall>c v1 e v2.
         changeReader_Read Q v = ((c, None), v1) \<and>
         changeProcessor_ProcessChange Q c v1 = (Some e, v2) \<longrightarrow>
         StreamChanges Q t0 =
           Some (Some (Wrap e ''could not process change''), v2,
                 ds @ [CallRead, CallProcessChange c])))"
proof (intro conjI impI allI)
  fix tx e w1
  assume "iterations n (StreamLedgerTransactions_body P) s0 = Some (w, cs)"
    and "reader_Read P w = ((tx, Some e), w1) \<and> e \<noteq> EOF"
  then show "StreamLedgerTransactions P s0 =
      Some (Some (Wrap e ''could not read transaction''), w1, cs @ [CallRead])"
    unfolding StreamLedgerTransactions_def
    by (intro for_loop_returns [where s = "(w, cs)" and n = n]) (simp_all add: tx_body_read_error)
next
  fix tx w1 incl e w2
  assume "iterations n (StreamLedgerTransactions_body P) s0 = Some (w, cs)"
    and "reader_Read P w = ((tx, None), w1) \<and>
         txFilterer_FilterTransaction P tx w1 = ((incl, Some e), w2)"
  then show "StreamLedgerTransactions P s0 =
      Some (Some (Wrapf e ''could not filter transaction %v'' (Index tx)), w2,
            cs @ [CallRead, CallFilterTransaction tx])"
    unfolding StreamLedgerTransactions_def
    by (intro for_loop_returns [where s = "(w, cs)" and n = n])
       (simp_all add: tx_body_filter_error)
next
  fix tx w1 w2 e w3
  assume "iterations n (StreamLedgerTransactions_body P) s0 = Some (w, cs)"
    and "reader_Read P w = ((tx, None), w1) \<and>
         txFilterer_FilterTransaction P tx w1 = ((False, None), w2) \<and>
         filteredTxProcessor_ProcessTransaction P tx w2 = (Some e, w3)"
  then show "StreamLedgerTransactions P s0 =
      Some (Some (Wrapf e ''could not process transaction %v'' (Index tx)), w3,
            cs @ [CallRead, CallFilterTransaction tx, CallFilteredProcessTransaction tx])"
    unfolding StreamLedgerTransactions_def
    by (intro for_loop_returns [where s = "(w, cs)" and n = n])
       (simp_all add: tx_body_excluded)
next
  fix tx w1 w2 e w3
  assume "iterations n (StreamLedgerTransactions_body P) s0 = Some (w, cs)"
    and "reader_Read P w = ((tx, None), w1) \<and>
         txFilterer_FilterTransaction P tx w1 = ((True, None), w2) \<and>
         txProcessor_ProcessTransaction P tx w2 = (Some e, w3)"
  then show "StreamLedgerTransactions P s0 =
      Some (Some (Wrapf e ''could not process transaction %v'' (Index tx)), w3,
            cs @ [CallRead, CallFilterTransaction tx, CallProcessTransaction tx])"
    unfolding StreamLedgerTransactions_def
    by (intro for_loop_returns [where s = "(w, cs)" and n = n])
       (simp_all add: tx_body_included)
next
  fix c e v1
  assume "iterations m (StreamChanges_body Q) t0 = Some (v, ds)"
    and "changeReader_Read Q v = ((c, Some e), v1) \<and> e \<noteq> EOF"
  then show "StreamChanges Q t0 =
      Some (Some (Wrap e ''could not read transaction''), v1, ds @ [CallRead])"
    unfolding StreamChanges_def
    by (intro for_loop_returns [where s = "(v, ds)" and n = m])
       (simp_all add: change_body_read_error)
next
  fix c v1 e v2
  assume "iterations m (StreamChanges_body Q) t0 = Some (v, ds)"
    and "changeReader_Read Q v = ((c, None), v1) \<and>
         changeProcessor_ProcessChange Q c v1 = (Some e, v2)"
  then show "StreamChanges Q t0 =
      Some (Some (Wrap e ''could not process change''), v2,
            ds @ [CallRead, CallProcessChange c])"
    unfolding StreamChanges_def
    by (intro for_loop_returns [where s = "(v, ds)" and n = m])
       (simp_all add: change_body_process)
qed

theorem stream_stops_on_first_error_witness:
  "StreamLedgerTransactions (example_pipeline None None)
     ([(example_tx 2, None), (example_tx 5, Some (New ''bad meta''))], []) =
     Some (Some (Wrap (New ''bad meta'') ''could not read transaction''), [],
           [CallRead, CallFilterTransaction (example_tx 2), CallProcessTransaction (example_tx 2),
            CallRead]) \<and>
   StreamLedgerTransactions (example_pipeline (Some 2) None)
     ([(example_tx 2, None), (example_tx 3, None)], []) =
     Some (Some (Wrapf (New ''filter failed'') ''could not filter transaction %v'' 2),
           [(example_tx 3, None)], [CallRead, CallFilterTransaction (example_tx 2)]) \<and>
   StreamLedgerTransactions (example_pipeline None (Some 3))
     ([(example_tx 3, None), (example_tx 4, None)], []) =
     Some (Some (Wrapf (New ''insert failed'') ''could not process transaction %v'' 3),
           [(example_tx 4, None)],
           [CallRead, CallFilterTransaction (example_tx 3),
            CallFilteredProcessTransaction (example_tx 3)]) \<and>
   StreamLedgerTransactions (example_pipeline None (Some 2))
     ([(example_tx 2, None), (example_tx 4, None)], []) =
     Some (Some (Wrapf (New ''insert failed'') ''could not process transaction %v'' 2),
           [(example_tx 4, None)],
           [CallRead, CallFilterTransaction (example_tx 2), CallProcessTransaction (example_tx 2)]) \<and>
   StreamChanges (example_change_pipeline None)
     ([(example_change 1, None), (example_change 2, Some (New ''bad meta''))], []) =
     Some (Some (Wrap (New ''bad meta'') ''could not read transaction''), [],
           [CallRead, CallProcessChange (example_change 1), CallRead]) \<and>
   StreamChanges (example_change_pipeline (Some 1))
     ([(example_change 1, None), (example_change 2, None)], []) =
     Some (Some (Wrap (New ''insert failed'') ''could not process change''),
           [(example_change 2, None)], [CallRead, CallProcessChange (example_change 1)])"
proof (intro conjI)
  show "StreamLedgerTransactions (example_pipeline None None)
     ([(example_tx 2, None), (example_tx 5, Some (New ''bad meta''))], []) =
     Some (Some (Wrap (New ''bad meta'') ''could not read transaction''), [],
           [CallRead, CallFilterTransaction (example_tx 2), CallProcessTransaction (example_tx 2),
            CallRead])"
    using stream_stops_on_first_error
      [of "Suc 0" "example_pipeline None None"
          "([(example_tx 2, None), (example_tx 5, Some (New ''bad meta''))], [])"
          "[(example_tx 5, Some (New ''bad meta''))]"
          "[CallRead, CallFilterTransaction (example_tx 2), CallProcessTransaction (example_tx 2)]",
       THEN conjunct1, THEN mp, THEN conjunct1, rule_format,
       of "example_tx 5" "New ''bad meta''" "[]"]
    by (simp add: example_defs)
  show "StreamLedgerTransactions (example_pipeline (Some 2) None)
     ([(example_tx 2, None), (example_tx 3, None)], []) =
     Some (Some (Wrapf (New ''filter failed'') ''could not filter transaction %v'' 2),
           [(example_tx 3, None)], [CallRead, CallFilterTransaction (example_tx 2)])"
    using stream_stops_on_first_error
      [of 0 "example_pipeline (Some 2) None"
          "([(example_tx 2, None), (example_tx 3, None)], [])"
          "[(example_tx 2, None), (example_tx 3, None)]" "[]",
       THEN conjunct1, THEN mp, THEN conjunct2, THEN conjunct1, rule_format,
       of "example_tx 2" "[(example_tx 3, None)]" True "New ''filter failed''"
          "[(example_tx 3, None)]"]
    by (simp add: example_defs)
  show "StreamLedgerTransactions (example_pipeline None (Some 3))
     ([(example_tx 3, None), (example_tx 4, None)], []) =
     Some (Some (Wrapf (New ''insert failed'') ''could not process transaction %v'' 3),
           [(example_tx 4, None)],
           [CallRead, CallFilterTransaction (example_tx 3),
            CallFilteredProcessTransaction (example_tx 3)])"
    using stream_stops_on_first_error
      [of 0 "example_pipeline None (Some 3)"
          "([(example_tx 3, None), (example_tx 4, None)], [])"
          "[(example_tx 3, None), (example_tx 4, None)]" "[]",
       THEN conjunct1, THEN mp, THEN conjunct2, THEN conjunct2, THEN conjunct1, rule_format,
       of "example_tx 3" "[(example_tx 4, None)]" "[(example_tx 4, None)]"
          "New ''insert failed''" "[(example_tx 4, None)]"]
    by (simp add: example_defs)
  show "StreamLedgerTransactions (example_pipeline None (Some 2))
     ([(example_tx 2, None), (example_tx 4, None)], []) =
     Some (Some (Wrapf (New ''insert failed'') ''could not process transaction %v'' 2),
           [(example_tx 4, None)],
           [CallRead, CallFilterTransaction (example_tx 2), CallProcessTransaction (example_tx 2)])"
    using stream_stops_on_first_error
      [of 0 "example_pipeline None (Some 2)"
          "([(example_tx 2, None), (example_tx 4, None)], [])"
          "[(example_tx 2, None), (example_tx 4, None)]" "[]",
       THEN conjunct1, THEN mp, THEN conjunct2, THEN conjunct2, THEN conjunct2, rule_format,
       of "example_tx 2" "[(example_tx 4, None)]" "[(example_tx 4, None)]"
          "New ''insert failed''" "[(example_tx 4, None)]"]
    by (simp add: example_defs)
  show "StreamChanges (example_change_pipeline None)
     ([(example_change 1, None), (example_change 2, Some (New ''bad meta''))], []) =
     Some (Some (Wrap (New ''bad meta'') ''could not read transaction''), [],
           [CallRead, CallProcessChange (example_change 1), CallRead])"
    using stream_stops_on_first_error
      [where m = "Suc 0" and Q = "example_change_pipeline None"
         and ?t0.0 = "([(example_change 1, None), (example_change 2, Some (New ''bad meta''))], [])"
         and v = "[(example_change 2, Some (New ''bad meta''))]"
         and ds = "[CallRead, CallProcessChange (example_change 1)]",
       THEN conjunct2, THEN mp, THEN conjunct1, rule_format,
       of "example_change 2" "New ''bad meta''" "[]"]
    by (simp add: example_defs)
  show "StreamChanges (example_change_pipeline (Some 1))
     ([(example_change 1, None), (example_change 2, None)], []) =
     Some (Some (Wrap (New ''insert failed'') ''could not process change''),
           [(example_change 2, None)], [CallRead, CallProcessChange (example_change 1)])"
    using stream_stops_on_first_error
      [where m = 0 and Q = "example_change_pipeline (Some 1)"
         and ?t0.0 = "([(example_change 1, None), (example_change 2, None)], [])"
         and v = "[(example_change 1, None), (example_change 2, None)]"
         and ds = "[]",
       THEN conjunct2, THEN mp, THEN conjunct2, rule_format,
       of "example_change 1" "[(example_change 2, None)]" "New ''insert failed''"
          "[(example_change 2, None)]"]
    by (simp add: example_defs)
qed

text \<open>
  C2. Routing by the filterer. In any iteration in which the reader yields a transaction and
  the filterer answers without error: when the answer is "exclude", the calls of the
  iteration are \<^verbatim>\<open>Read\<close>, \<^verbatim>\<open>FilterTransaction\<close> and \<^verbatim>\<open>filteredTxProcessor.ProcessTransaction\<close>
  on that transaction (then the debug log line, if the processor succeeded), and
  \<^verbatim>\<open>txProcessor.ProcessTransaction\<close> is not called; when the answer is "include", the calls
  are \<^verbatim>\<open>Read\<close>, \<^verbatim>\<open>FilterTransaction\<close> and \<^verbatim>\<open>txProcessor.ProcessTransaction\<close>, and the filtered
  processor is not called. Either the processor fails and the driver returns with exactly
  these calls appended, or the next iteration starts with exactly these calls appended.
\<close>

theorem stream_routes_by_filter:
  assumes "iterations n (StreamLedgerTransactions_body P) s0 = Some (w, cs)"
    and "reader_Read P w = ((tx, None), w1)"
    and "txFilterer_FilterTransaction P tx w1 = ((incl, None), w2)"
  shows "(\<not> incl \<longrightarrow>
           (\<forall>r w3. filteredTxProcessor_ProcessTransaction P tx w2 = (r, w3) \<longrightarrow>
             (case r of
                Some e \<Rightarrow>
                  StreamLedgerTransactions P s0 =
                    Some (Some (Wrapf e ''could not process transaction %v'' (Index tx)), w3,
                          cs @ [CallRead, CallFilterTransaction tx,
                                CallFilteredProcessTransaction tx])
              | None \<Rightarrow>
                  iterations (Suc n) (StreamLedgerTransactions_body P) s0 =
                    Some (w3, cs @ [CallRead, CallFilterTransaction tx,
                                    CallFilteredProcessTransaction tx,
                                    CallDebugf ''Filters did not find match on transaction, dropping this tx with hash %v''
                                      (TransactionHash tx)])))) \<and>
         (incl \<longrightarrow>
           (\<forall>r w3. txProcessor_ProcessTransaction P tx w2 = (r, w3) \<longrightarrow>
             (case r of
                Some e \<Rightarrow>
                  StreamLedgerTransactions P s0 =
                    Some (Some (Wrapf e ''could not process transaction %v'' (Index tx)), w3,
                          cs @ [CallRead, CallFilterTransaction tx, CallProcessTransaction tx])
              | None \<Rightarrow>
                  iterations (Suc n) (StreamLedgerTransactions_body P) s0 =
                    Some (w3, cs @ [CallRead, CallFilterTransaction tx,
                                    CallProcessTransaction tx]))))"
proof (intro conjI impI allI)
  fix r w3
  assume "\<not> incl" and "filteredTxProcessor_ProcessTransaction P tx w2 = (r, w3)"
  with assms(2,3) have body: "StreamLedgerTransactions_body P (w, cs) =
     (case r of
        Some e \<Rightarrow> Inl (Some (Wrapf e ''could not process transaction %v'' (Index tx)), w3,
                    cs @ [CallRead, CallFilterTransaction tx, CallFilteredProcessTransaction tx])
      | None \<Rightarrow> Inr (w3, cs @ [CallRead, CallFilterTransaction tx,
                    CallFilteredProcessTransaction tx,
                    CallDebugf ''Filters did not find match on transaction, dropping this tx with hash %v''
                      (TransactionHash tx)]))"
    by (simp add: tx_body_excluded)
  show "case r of
          Some e \<Rightarrow>
            StreamLedgerTransactions P s0 =
              Some (Some (Wrapf e ''could not process transaction %v'' (Index tx)), w3,
                    cs @ [CallRead, CallFilterTransaction tx, CallFilteredProcessTransaction tx])
        | None \<Rightarrow>
            iterations (Suc n) (StreamLedgerTransactions_body P) s0 =
              Some (w3, cs @ [CallRead, CallFilterTransaction tx,
                              CallFilteredProcessTransaction tx,
                              CallDebugf ''Filters did not find match on transaction, dropping this tx with hash %v''
                                (TransactionHash tx)])"
  proof (cases r)
    case None
    with body show ?thesis
      by (simp del: iterations.simps add: iterations_Suc_end [OF assms(1)])
  next
    case (Some e)
    with body assms(1) show ?thesis
      by (simp add: StreamLedgerTransactions_def for_loop_returns [where s = "(w, cs)" and n = n])
  qed
next
  fix r w3
  assume "incl" and "txProcessor_ProcessTransaction P tx w2 = (r, w3)"
  with assms(2,3) have body: "StreamLedgerTransactions_body P (w, cs) =
     (case r of
        Some e \<Rightarrow> Inl (Some (Wrapf e ''could not process transaction %v'' (Index tx)), w3,
                    cs @ [CallRead, CallFilterTransaction tx, CallProcessTransaction tx])
      | None \<Rightarrow> Inr (w3, cs @ [CallRead, CallFilterTransaction tx, CallProcessTransaction tx]))"
    by (simp add: tx_body_included)
  show "case r of
          Some e \<Rightarrow>
            StreamLedgerTransactions P s0 =
              Some (Some (Wrapf e ''could not process transaction %v'' (Index tx)), w3,
                    cs @ [CallRead, CallFilterTransaction tx, CallProcessTransaction tx])
        | None \<Rightarrow>
            iterations (Suc n) (StreamLedgerTransactions_body P) s0 =
              Some (w3, cs @ [CallRead, CallFilterTransaction tx, CallProcessTransaction tx])"
  proof (cases r)
    case None
    with body show ?thesis
      by (simp del: iterations.simps add: iterations_Suc_end [OF assms(1)])
  next
    case (Some e)
    with body assms(1) show ?thesis
      by (simp add: StreamLedgerTransactions_def for_loop_returns [where s = "(w, cs)" and n = n])
  qed
qed

theorem stream_routes_by_filter_witness:
  "iterations (Suc 0) (StreamLedgerTransactions_body (example_pipeline None None))
     ([(example_tx 3, None), (example_tx 4, None)], []) =
     Some ([(example_tx 4, None)],
           [CallRead, CallFilterTransaction (example_tx 3),
            CallFilteredProcessTransaction (example_tx 3),
            CallDebugf ''Filters did not find match on transaction, dropping this tx with hash %v''
              ''ab'']) \<and>
   StreamLedgerTransactions (example_pipeline None (Some 4))
     ([(example_tx 3, None), (example_tx 4, None)], []) =
     Some (Some (Wrapf (New ''insert failed'') ''could not process transaction %v'' 4), [],
           [CallRead, CallFilterTransaction (example_tx 3),
            CallFilteredProcessTransaction (example_tx 3),
            CallDebugf ''Filters did not find match on transaction, dropping this tx with hash %v''
              ''ab'',
            CallRead, CallFilterTransaction (example_tx 4),
            CallProcessTransaction (example_tx 4)])"
proof (intro conjI)
  show "iterations (Suc 0) (StreamLedgerTransactions_body (example_pipeline None None))
     ([(example_tx 3, None), (example_tx 4, None)], []) =
     Some ([(example_tx 4, None)],
           [CallRead, CallFilterTransaction (example_tx 3),
            CallFilteredProcessTransaction (example_tx 3),
            CallDebugf ''Filters did not find match on transaction, dropping this tx with hash %v''
              ''ab''])"
    using stream_routes_by_filter
      [of 0 "example_pipeline None None" "([(example_tx 3, None), (example_tx 4, None)], [])"
          "[(example_tx 3, None), (example_tx 4, None)]" "[]"
          "example_tx 3" "[(example_tx 4, None)]" False "[(example_tx 4, None)]",
       THEN conjunct1, THEN mp, rule_format, of None "[(example_tx 4, None)]"]
    by (simp add: example_defs)
  show "StreamLedgerTransactions (example_pipeline None (Some 4))
     ([(example_tx 3, None), (example_tx 4, None)], []) =
     Some (Some (Wrapf (New ''insert failed'') ''could not process transaction %v'' 4), [],
           [CallRead, CallFilterTransaction (example_tx 3),
            CallFilteredProcessTransaction (example_tx 3),
            CallDebugf ''Filters did not find match on transaction, dropping this tx with hash %v''
              ''ab'',
            CallRead, CallFilterTransaction (example_tx 4),
            CallProcessTransaction (example_tx 4)])"
    using stream_routes_by_filter
      [of "Suc 0" "example_pipeline None (Some 4)"
          "([(example_tx 3, None), (example_tx 4, None)], [])"
          "[(example_tx 4, None)]"
          "[CallRead, CallFilterTransaction (example_tx 3),
            CallFilteredProcessTransaction (example_tx 3),
            CallDebugf ''Filters did not find match on transaction, dropping this tx with hash %v''
              ''ab'']"
          "example_tx 4" "[]" True "[]",
       THEN conjunct2, THEN mp, rule_format, of "Some (New ''insert failed'')" "[]"]
    by (simp add: example_defs)
qed

text \<open>The \<^verbatim>\<open>nil\<close> return in terms of the iterations of the loop.\<close>

lemma stream_nil_iff_iterations:
  "(\<forall>s'. StreamLedgerTransactions P s0 = Some (None, s') \<longleftrightarrow>
      (\<exists>n w cs tx w1. iterations n (StreamLedgerTransactions_body P) s0 = Some (w, cs) \<and>
         reader_Read P w = ((tx, Some EOF), w1) \<and> s' = (w1, cs @ [CallRead]))) \<and>
   (\<forall>s'. StreamLedgerTransactions P s0 \<noteq>
      Some (Some (Wrap EOF ''could not read transaction''), s')) \<and>
   (\<forall>t'. StreamChanges Q t0 = Some (None, t') \<longleftrightarrow>
      (\<exists>n v ds c v1. iterations n (StreamChanges_body Q) t0 = Some (v, ds) \<and>
         changeReader_Read Q v = ((c, Some EOF), v1) \<and> t' = (v1, ds @ [CallRead]))) \<and>
   (\<forall>t'. StreamChanges Q t0 \<noteq> Some (Some (Wrap EOF ''could not read transaction''), t'))"
proof (intro conjI allI iffI notI)
  fix s'
  assume "StreamLedgerTransactions P s0 = Some (None, s')"
  then obtain n s where it: "iterations n (StreamLedgerTransactions_body P) s0 = Some s"
    and b: "StreamLedgerTransactions_body P s = Inl (None, s')"
    unfolding StreamLedgerTransactions_def by (blast dest: for_loop_Some_D)
  obtain w cs where s: "s = (w, cs)" by (cases s)
  from b s obtain tx w1 where "reader_Read P w = ((tx, Some EOF), w1)" "s' = (w1, cs @ [CallRead])"
    by (blast dest: tx_body_nil_D)
  with it s show "\<exists>n w cs tx w1. iterations n (StreamLedgerTransactions_body P) s0 = Some (w, cs) \<and>
         reader_Read P w = ((tx, Some EOF), w1) \<and> s' = (w1, cs @ [CallRead])"
    by blast
next
  fix s'
  assume "\<exists>n w cs tx w1. iterations n (StreamLedgerTransactions_body P) s0 = Some (w, cs) \<and>
         reader_Read P w = ((tx, Some EOF), w1) \<and> s' = (w1, cs @ [CallRead])"
  then obtain n w cs tx w1 where "iterations n (StreamLedgerTransactions_body P) s0 = Some (w, cs)"
    "reader_Read P w = ((tx, Some EOF), w1)" "s' = (w1, cs @ [CallRead])" by blast
  then show "StreamLedgerTransactions P s0 = Some (None, s')"
    unfolding StreamLedgerTransactions_def
    by (intro for_loop_returns [where s = "(w, cs)" and n = n]) (simp_all add: tx_body_read_EOF)
next
  fix s'
  assume "StreamLedgerTransactions P s0 = Some (Some (Wrap EOF ''could not read transaction''), s')"
  then obtain n s where
    "StreamLedgerTransactions_body P s = Inl (Some (Wrap EOF ''could not read transaction''), s')"
    unfolding StreamLedgerTransactions_def by (blast dest: for_loop_Some_D)
  then show False by (cases s) (auto dest: tx_body_error_D)
next
  fix t'
  assume "StreamChanges Q t0 = Some (None, t')"
  then obtain n s where it: "iterations n (StreamChanges_body Q) t0 = Some s"
    and b: "StreamChanges_body Q s = Inl (None, t')"
    unfolding StreamChanges_def by (blast dest: for_loop_Some_D)
  obtain v ds where s: "s = (v, ds)" by (cases s)
  from b s obtain c v1 where "changeReader_Read Q v = ((c, Some EOF), v1)" "t' = (v1, ds @ [CallRead])"
    by (blast dest: change_body_nil_D)
  with it s show "\<exists>n v ds c v1. iterations n (StreamChanges_body Q) t0 = Some (v, ds) \<and>
         changeReader_Read Q v = ((c, Some EOF), v1) \<and> t' = (v1, ds @ [CallRead])"
    by blast
next
  fix t'
  assume "\<exists>n v ds c v1. iterations n (StreamChanges_body Q) t0 = Some (v, ds) \<and>
         changeReader_Read Q v = ((c, Some EOF), v1) \<and> t' = (v1, ds @ [CallRead])"
  then obtain n v ds c v1 where "iterations n (StreamChanges_body Q) t0 = Some (v, ds)"
    "changeReader_Read Q v = ((c, Some EOF), v1)" "t' = (v1, ds @ [CallRead])" by blast
  then show "StreamChanges Q t0 = Some (None, t')"
    unfolding StreamChanges_def
    by (intro for_loop_returns [where s = "(v, ds)" and n = n]) (simp_all add: change_body_read_EOF)
next
  fix t'
  assume "StreamChanges Q t0 = Some (Some (Wrap EOF ''could not read transaction''), t')"
  then obtain n s where
    "StreamChanges_body Q s = Inl (Some (Wrap EOF ''could not read transaction''), t')"
    unfolding StreamChanges_def by (blast dest: for_loop_Some_D)
  then show False by (cases s) (auto dest: change_body_error_D)
qed

text \<open>The iterations that run to their end are the error-free ones.\<close>

lemma tx_iterations_error_free:
  "iterations n (StreamLedgerTransactions_body P) (w0, cs0) = Some (w, cs) \<Longrightarrow>
   error_free_transactions n P w0 = Some w"
proof (induction n arbitrary: w0 cs0)
  case 0
  then show ?case by simp
next
  case (Suc n)
  from Suc.prems obtain w1 cs1 where
    b: "StreamLedgerTransactions_body P (w0, cs0) = Inr (w1, cs1)"
    and it: "iterations n (StreamLedgerTransactions_body P) (w1, cs1) = Some (w, cs)"
    by (cases "StreamLedgerTransactions_body P (w0, cs0)") auto
  from Suc.IH [OF it] have "error_free_transactions n P w1 = Some w" .
  with b show ?case
    by (auto simp: StreamLedgerTransactions_body_def Let_def
        split: prod.splits option.splits if_splits)
qed

lemma tx_error_free_iterations:
  "error_free_transactions n P w0 = Some w \<Longrightarrow>
   \<exists>cs. iterations n (StreamLedgerTransactions_body P) (w0, cs0) = Some (w, cs)"
proof (induction n arbitrary: w0 cs0)
  case 0
  then show ?case by simp
next
  case (Suc n)
  from Suc.prems obtain w1 where
    b: "\<exists>cs1. StreamLedgerTransactions_body P (w0, cs0) = Inr (w1, cs1)"
    and e: "error_free_transactions n P w1 = Some w"
    by (auto simp: StreamLedgerTransactions_body_def Let_def
        split: prod.splits option.splits if_splits)
  from b obtain cs1 where b1: "StreamLedgerTransactions_body P (w0, cs0) = Inr (w1, cs1)" by blast
  from Suc.IH [OF e, of cs1] obtain cs where
    "iterations n (StreamLedgerTransactions_body P) (w1, cs1) = Some (w, cs)" by blast
  with b1 have "iterations (Suc n) (StreamLedgerTransactions_body P) (w0, cs0) = Some (w, cs)"
    by simp
  then show ?case by blast
qed

lemma change_iterations_error_free:
  "iterations n (StreamChanges_body P) (w0, cs0) = Some (w, cs) \<Longrightarrow>
   error_free_changes n P w0 = Some w"
proof (induction n arbitrary: w0 cs0)
  case 0
  then show ?case by simp
next
  case (Suc n)
  from Suc.prems obtain w1 cs1 where
    b: "StreamChanges_body P (w0, cs0) = Inr (w1, cs1)"
    and it: "iterations n (StreamChanges_body P) (w1, cs1) = Some (w, cs)"
    by (cases "StreamChanges_body P (w0, cs0)") auto
  from Suc.IH [OF it] have "error_free_changes n P w1 = Some w" .
  with b show ?case
    by (auto simp: StreamChanges_body_def Let_def split: prod.splits option.splits if_splits)
qed

lemma change_error_free_iterations:
  "error_free_changes n P w0 = Some w \<Longrightarrow>
   \<exists>cs. iterations n (StreamChanges_body P) (w0, cs0) = Some (w, cs)"
proof (induction n arbitrary: w0 cs0)
  case 0
  then show ?case by simp
next
  case (Suc n)
  from Suc.prems obtain w1 where
    b: "\<exists>cs1. StreamChanges_body P (w0, cs0) = Inr (w1, cs1)"
    and e: "error_free_changes n P w1 = Some w"
    by (auto simp: StreamChanges_body_def Let_def split: prod.splits option.splits if_splits)
  from b obtain cs1 where b1: "StreamChanges_body P (w0, cs0) = Inr (w1, cs1)" by blast
  from Suc.IH [OF e, of cs1] obtain cs where
    "iterations n (StreamChanges_body P) (w1, cs1) = Some (w, cs)" by blast
  with b1 have "iterations (Suc n) (StreamChanges_body P) (w0, cs0) = Some (w, cs)" by simp
  then show ?case by blast
qed

text \<open>
  C4. End-of-data is success. \<^verbatim>\<open>StreamLedgerTransactions\<close> returns \<^verbatim>\<open>nil\<close> exactly when the
  reader signals \<open>EOF\<close> after some number of transactions for which neither the reader, nor
  the filterer, nor the processor the filterer selected returned an error; the \<^verbatim>\<open>Read\<close> that
  signalled \<open>EOF\<close> is then the last call made, and the driver never returns \<open>EOF\<close> wrapped as
  a read error. The same holds for \<^verbatim>\<open>StreamChanges\<close>. A filterer or processor error before
  end-of-data therefore rules out a \<^verbatim>\<open>nil\<close> return.
\<close>

theorem stream_returns_nil_iff_reader_EOF:
  "((\<exists>cs'. StreamLedgerTransactions P (w0, cs0) = Some (None, w', cs')) \<longleftrightarrow>
      (\<exists>n w tx. error_free_transactions n P w0 = Some w \<and>
         reader_Read P w = ((tx, Some EOF), w'))) \<and>
   (\<forall>cs'. StreamLedgerTransactions P (w0, cs0) = Some (None, w', cs') \<longrightarrow>
      (\<exists>cs. cs' = cs @ [CallRead])) \<and>
   (\<forall>s'. StreamLedgerTransactions P (w0, cs0) \<noteq>
      Some (Some (Wrap EOF ''could not read transaction''), s')) \<and>
   ((\<exists>ds'. StreamChanges Q (v0, ds0) = Some (None, v', ds')) \<longleftrightarrow>
      (\<exists>n v c. error_free_changes n Q v0 = Some v \<and>
         changeReader_Read Q v = ((c, Some EOF), v'))) \<and>
   (\<forall>ds'. StreamChanges Q (v0, ds0) = Some (None, v', ds') \<longrightarrow>
      (\<exists>ds. ds' = ds @ [CallRead])) \<and>
   (\<forall>t'. StreamChanges Q (v0, ds0) \<noteq>
      Some (Some (Wrap EOF ''could not read transaction''), t'))"
proof -
  note tx = stream_nil_iff_iterations [of P "(w0, cs0)", THEN conjunct1, rule_format]
  note ch = stream_nil_iff_iterations [where Q = Q and ?t0.0 = "(v0, ds0)",
      THEN conjunct2, THEN conjunct2, THEN conjunct1, rule_format]
  have a: "(\<exists>cs'. StreamLedgerTransactions P (w0, cs0) = Some (None, w', cs')) \<longleftrightarrow>
      (\<exists>n w tx. error_free_transactions n P w0 = Some w \<and>
         reader_Read P w = ((tx, Some EOF), w'))"
  proof
    assume "\<exists>cs'. StreamLedgerTransactions P (w0, cs0) = Some (None, w', cs')"
    then obtain cs' where "StreamLedgerTransactions P (w0, cs0) = Some (None, w', cs')" by blast
    then obtain n w cs tx w1 where
      it: "iterations n (StreamLedgerTransactions_body P) (w0, cs0) = Some (w, cs)"
      and r: "reader_Read P w = ((tx, Some EOF), w1)" and "(w', cs') = (w1, cs @ [CallRead])"
      unfolding tx by blast
    then have "reader_Read P w = ((tx, Some EOF), w')" by simp
    with tx_iterations_error_free [OF it]
    show "\<exists>n w tx. error_free_transactions n P w0 = Some w \<and>
         reader_Read P w = ((tx, Some EOF), w')" by blast
  next
    assume "\<exists>n w tx. error_free_transactions n P w0 = Some w \<and>
         reader_Read P w = ((tx, Some EOF), w')"
    then obtain n w tx where e: "error_free_transactions n P w0 = Some w"
      and r: "reader_Read P w = ((tx, Some EOF), w')" by blast
    from tx_error_free_iterations [OF e, of cs0] obtain cs where
      "iterations n (StreamLedgerTransactions_body P) (w0, cs0) = Some (w, cs)" by blast
    with r have "StreamLedgerTransactions P (w0, cs0) = Some (None, w', cs @ [CallRead])"
      unfolding tx by blast
    then show "\<exists>cs'. StreamLedgerTransactions P (w0, cs0) = Some (None, w', cs')" by blast
  qed
  have b: "\<forall>cs'. StreamLedgerTransactions P (w0, cs0) = Some (None, w', cs') \<longrightarrow>
      (\<exists>cs. cs' = cs @ [CallRead])"
    unfolding tx by blast
  have c: "(\<exists>ds'. StreamChanges Q (v0, ds0) = Some (None, v', ds')) \<longleftrightarrow>
      (\<exists>n v c. error_free_changes n Q v0 = Some v \<and>
         changeReader_Read Q v = ((c, Some EOF), v'))"
  proof
    assume "\<exists>ds'. StreamChanges Q (v0, ds0) = Some (None, v', ds')"
    then obtain ds' where "StreamChanges Q (v0, ds0) = Some (None, v', ds')" by blast
    then obtain n v ds c v1 where
      it: "iterations n (StreamChanges_body Q) (v0, ds0) = Some (v, ds)"
      and r: "changeReader_Read Q v = ((c, Some EOF), v1)" and "(v', ds') = (v1, ds @ [CallRead])"
      unfolding ch by blast
    then have "changeReader_Read Q v = ((c, Some EOF), v')" by simp
    with change_iterations_error_free [OF it]
    show "\<exists>n v c. error_free_changes n Q v0 = Some v \<and>
         changeReader_Read Q v = ((c, Some EOF), v')" by blast
  next
    assume "\<exists>n v c. error_free_changes n Q v0 = Some v \<and>
         changeReader_Read Q v = ((c, Some EOF), v')"
    then obtain n v c where e: "error_free_changes n Q v0 = Some v"
      and r: "changeReader_Read Q v = ((c, Some EOF), v')" by blast
    from change_error_free_iterations [OF e, of ds0] obtain ds where
      "iterations n (StreamChanges_body Q) (v0, ds0) = Some (v, ds)" by blast
    with r have "StreamChanges Q (v0, ds0) = Some (None, v', ds @ [CallRead])"
      unfolding ch by blast
    then show "\<exists>ds'. StreamChanges Q (v0, ds0) = Some (None, v', ds')" by blast
  qed
  have d: "\<forall>ds'. StreamChanges Q (v0, ds0) = Some (None, v', ds') \<longrightarrow>
      (\<exists>ds. ds' = ds @ [CallRead])"
    unfolding ch by blast
  from a b c d show ?thesis
    using stream_nil_iff_iterations [of P "(w0, cs0)" Q "(v0, ds0)"] by blast
qed

theorem stream_returns_nil_iff_reader_EOF_witness:
  "(\<exists>cs'. StreamLedgerTransactions (example_pipeline None None)
       ([(example_tx 2, None), (example_tx 3, None)], []) = Some (None, [], cs')) \<and>
   \<not> (\<exists>w' cs'. StreamLedgerTransactions (example_pipeline (Some 2) None)
       ([(example_tx 2, None)], []) = Some (None, w', cs')) \<and>
   \<not> (\<exists>w' cs'. StreamLedgerTransactions (example_pipeline None (Some 3))
       ([(example_tx 3, None)], []) = Some (None, w', cs')) \<and>
   \<not> (\<exists>w' cs'. StreamLedgerTransactions (example_pipeline None (Some 2))
       ([(example_tx 2, None)], []) = Some (None, w', cs')) \<and>
   (\<exists>ds'. StreamChanges (example_change_pipeline None)
       ([(example_change 1, None)], []) = Some (None, [], ds')) \<and>
   \<not> (\<exists>v' ds'. StreamChanges (example_change_pipeline (Some 1))
       ([(example_change 1, None)], []) = Some (None, v', ds'))"
proof (intro conjI notI)
  have "error_free_transactions (Suc (Suc 0)) (example_pipeline None None)
          [(example_tx 2, None), (example_tx 3, None)] = Some [] \<and>
        reader_Read (example_pipeline None None) [] = ((example_tx 0, Some EOF), [])"
    by (simp add: example_defs)
  then have "\<exists>n w tx. error_free_transactions n (example_pipeline None None)
          [(example_tx 2, None), (example_tx 3, None)] = Some w \<and>
        reader_Read (example_pipeline None None) w = ((tx, Some EOF), [])"
    by blast
  then show "\<exists>cs'. StreamLedgerTransactions (example_pipeline None None)
       ([(example_tx 2, None), (example_tx 3, None)], []) = Some (None, [], cs')"
    by (rule stream_returns_nil_iff_reader_EOF [THEN conjunct1, THEN iffD2])
next
  assume "\<exists>w' cs'. StreamLedgerTransactions (example_pipeline (Some 2) None)
       ([(example_tx 2, None)], []) = Some (None, w', cs')"
  then obtain w' cs' where "StreamLedgerTransactions (example_pipeline (Some 2) None)
       ([(example_tx 2, None)], []) = Some (None, w', cs')" by blast
  then have "\<exists>cs'. StreamLedgerTransactions (example_pipeline (Some 2) None)
       ([(example_tx 2, None)], []) = Some (None, w', cs')" by blast
  from stream_returns_nil_iff_reader_EOF [THEN conjunct1, THEN iffD1, OF this] obtain n w tx where
    e: "error_free_transactions n (example_pipeline (Some 2) None) [(example_tx 2, None)] = Some w"
    and r: "reader_Read (example_pipeline (Some 2) None) w = ((tx, Some EOF), w')"
    by blast
  show False
  proof (cases n)
    case 0
    with e r show False by (auto simp: example_defs)
  next
    case (Suc m)
    with e show False by (simp add: example_defs)
  qed
next
  assume "\<exists>w' cs'. StreamLedgerTransactions (example_pipeline None (Some 3))
       ([(example_tx 3, None)], []) = Some (None, w', cs')"
  then obtain w' cs' where "StreamLedgerTransactions (example_pipeline None (Some 3))
       ([(example_tx 3, None)], []) = Some (None, w', cs')" by blast
  then have "\<exists>cs'. StreamLedgerTransactions (example_pipeline None (Some 3))
       ([(example_tx 3, None)], []) = Some (None, w', cs')" by blast
  from stream_returns_nil_iff_reader_EOF [THEN conjunct1, THEN iffD1, OF this] obtain n w tx where
    e: "error_free_transactions n (example_pipeline None (Some 3)) [(example_tx 3, None)] = Some w"
    and r: "reader_Read (example_pipeline None (Some 3)) w = ((tx, Some EOF), w')"
    by blast
  show False
  proof (cases n)
    case 0
    with e r show False by (auto simp: example_defs)
  next
    case (Suc m)
    with e show False by (simp add: example_defs)
  qed
next
  assume "\<exists>w' cs'. StreamLedgerTransactions (example_pipeline None (Some 2))
       ([(example_tx 2, None)], []) = Some (None, w', cs')"
  then obtain w' cs' where "StreamLedgerTransactions (example_pipeline None (Some 2))
       ([(example_tx 2, None)], []) = Some (None, w', cs')" by blast
  then have "\<exists>cs'. StreamLedgerTransactions (example_pipeline None (Some 2))
       ([(example_tx 2, None)], []) = Some (None, w', cs')" by blast
  from stream_returns_nil_iff_reader_EOF [THEN conjunct1, THEN iffD1, OF this] obtain n w tx where
    e: "error_free_transactions n (example_pipeline None (Some 2)) [(example_tx 2, None)] = Some w"
    and r: "reader_Read (example_pipeline None (Some 2)) w = ((tx, Some EOF), w')"
    by blast
  show False
  proof (cases n)
    case 0
    with e r show False by (auto simp: example_defs)
  next
    case (Suc m)
    with e show False by (simp add: example_defs)
  qed
next
  have "error_free_changes (Suc 0) (example_change_pipeline None) [(example_change 1, None)] =
          Some [] \<and>
        changeReader_Read (example_change_pipeline None) [] = ((example_change 0, Some EOF), [])"
    by (simp add: example_defs)
  then have "\<exists>n v c. error_free_changes n (example_change_pipeline None)
          [(example_change 1, None)] = Some v \<and>
        changeReader_Read (example_change_pipeline None) v = ((c, Some EOF), [])"
    by blast
  then show "\<exists>ds'. StreamChanges (example_change_pipeline None)
       ([(example_change 1, None)], []) = Some (None, [], ds')"
    by (rule stream_returns_nil_iff_reader_EOF [THEN conjunct2, THEN conjunct2, THEN conjunct2, THEN conjunct1, THEN iffD2])
next
  assume "\<exists>v' ds'. StreamChanges (example_change_pipeline (Some 1))
       ([(example_change 1, None)], []) = Some (None, v', ds')"
  then obtain v' ds' where "StreamChanges (example_change_pipeline (Some 1))
       ([(example_change 1, None)], []) = Some (None, v', ds')" by blast
  then have "\<exists>ds'. StreamChanges (example_change_pipeline (Some 1))
       ([(example_change 1, None)], []) = Some (None, v', ds')" by blast
  from stream_returns_nil_iff_reader_EOF [THEN conjunct2, THEN conjunct2, THEN conjunct2, THEN conjunct1, THEN iffD1, OF this]
  obtain n v c where
    e: "error_free_changes n (example_change_pipeline (Some 1)) [(example_change 1, None)] = Some v"
    and r: "changeReader_Read (example_change_pipeline (Some 1)) v = ((c, Some EOF), v')"
    by blast
  show False
  proof (cases n)
    case 0
    with e r show False by (auto simp: example_defs)
  next
    case (Suc m)
    with e show False by (simp add: example_defs)
  qed
qed

section \<open>Claims about the trusted ledger hash store\<close>

lemmas sq_defs = sq_Select_def sq_From_def sq_Limit_def sq_Where_def

lemma GetLedgerHash_db_session:
  "GetLedgerHash (db_session rows None) seq =
     (case map snd (filter (\<lambda>row. fst row = seq) rows) of
        [] \<Rightarrow> ('''', False, None)
      | h # _ \<Rightarrow> (h, True, None))"
  by (cases "filter (\<lambda>row. fst row = seq) rows")
     (simp_all add: GetLedgerHash_def db_session_def select_ledger_hash_def sq_defs)

text \<open>
  C3. For every sequence number, when the query runs, \<^verbatim>\<open>GetLedgerHash\<close> returns a hash that
  \<^verbatim>\<open>history_ledgers\<close> holds for that sequence with \<^verbatim>\<open>found = true\<close> and a \<^verbatim>\<open>nil\<close> error when the
  table has a row for the sequence, and the empty string with \<^verbatim>\<open>found = false\<close> and a \<^verbatim>\<open>nil\<close>
  error (not an error) when it has none.
\<close>

theorem GetLedgerHash_found_or_not:
  "(seq \<in> fst ` set history_ledgers \<longrightarrow>
      (\<exists>hash. (seq, hash) \<in> set history_ledgers \<and>
         GetLedgerHash (db_session history_ledgers None) seq = (hash, True, None))) \<and>
   (seq \<notin> fst ` set history_ledgers \<longrightarrow>
      GetLedgerHash (db_session history_ledgers None) seq = ('''', False, None))"
proof (intro conjI impI)
  assume "seq \<in> fst ` set history_ledgers"
  then have "filter (\<lambda>row. fst row = seq) history_ledgers \<noteq> []"
    by (auto simp: filter_empty_conv)
  then obtain r rs where f: "filter (\<lambda>row. fst row = seq) history_ledgers = r # rs"
    by (cases "filter (\<lambda>row. fst row = seq) history_ledgers") auto
  then have "r \<in> set (filter (\<lambda>row. fst row = seq) history_ledgers)" by simp
  then have "(seq, snd r) \<in> set history_ledgers" by auto
  moreover from f have "GetLedgerHash (db_session history_ledgers None) seq = (snd r, True, None)"
    by (simp add: GetLedgerHash_db_session)
  ultimately show "\<exists>hash. (seq, hash) \<in> set history_ledgers \<and>
         GetLedgerHash (db_session history_ledgers None) seq = (hash, True, None)"
    by blast
next
  assume "seq \<notin> fst ` set history_ledgers"
  then have "filter (\<lambda>row. fst row = seq) history_ledgers = []"
    by (auto simp: filter_empty_conv)
  then show "GetLedgerHash (db_session history_ledgers None) seq = ('''', False, None)"
    by (simp add: GetLedgerHash_db_session)
qed

theorem GetLedgerHash_found_or_not_witness:
  "GetLedgerHash (db_session [(7, ''aa''), (8, ''bb'')] None) 8 = (''bb'', True, None) \<and>
   GetLedgerHash (db_session [(7, ''aa''), (8, ''bb'')] None) 9 = ('''', False, None)"
proof (intro conjI)
  have "\<exists>hash. (8, hash) \<in> set [(7 :: 32 word, ''aa''), (8, ''bb'')] \<and>
      GetLedgerHash (db_session [(7, ''aa''), (8, ''bb'')] None) 8 = (hash, True, None)"
    using GetLedgerHash_found_or_not [of 8 "[(7, ''aa''), (8, ''bb'')]", THEN conjunct1]
    by simp
  then show "GetLedgerHash (db_session [(7, ''aa''), (8, ''bb'')] None) 8 = (''bb'', True, None)"
    by auto
  show "GetLedgerHash (db_session [(7, ''aa''), (8, ''bb'')] None) 9 = ('''', False, None)"
    using GetLedgerHash_found_or_not [of 9 "[(7, ''aa''), (8, ''bb'')]", THEN conjunct2]
    by simp
qed

text \<open>
  C9. When the query fails with an error that is not the no-rows condition,
  \<^verbatim>\<open>GetLedgerHash\<close> returns that error together with \<^verbatim>\<open>found = true\<close> and the hash the failed
  \<^verbatim>\<open>Get\<close> left in the destination; over the database session that is the zero-value hash.
  So \<^verbatim>\<open>found\<close> says nothing unless the error is \<^verbatim>\<open>nil\<close>.
\<close>

theorem GetLedgerHash_query_failure:
  "(session_Get S
      (sq_Where ''sequence = ?'' [seq]
         (sq_Limit 1 (sq_From ''history_ledgers hl'' (sq_Select [''hl.ledger_hash'']))))
      '''' = (h, Some e) \<and>
    \<not> session_NoRows S (Some e) \<longrightarrow>
      GetLedgerHash S seq = (h, True, Some e)) \<and>
   (e \<noteq> ErrNoRows \<longrightarrow>
      GetLedgerHash (db_session history_ledgers (Some e)) seq = ('''', True, Some e))"
  by (simp add: GetLedgerHash_def db_session_def)

theorem GetLedgerHash_query_failure_witness:
  "GetLedgerHash (db_session [(8, ''bb'')] (Some (New ''connection refused''))) 8 =
     ('''', True, Some (New ''connection refused''))"
proof -
  have "GetLedgerHash (db_session [(8, ''bb'')] (Some (New ''connection refused''))) 8 =
     ('''', True, Some (New ''connection refused''))"
    using GetLedgerHash_query_failure
      [of "db_session [(8, ''bb'')] (Some (New ''connection refused''))" 8 "''''"
          "New ''connection refused''", THEN conjunct1]
    by (simp add: db_session_def)
  moreover have "GetLedgerHash (db_session [(8, ''bb'')] (Some (New ''connection refused''))) 8 =
     ('''', True, Some (New ''connection refused''))"
    using GetLedgerHash_query_failure
      [of _ _ _ "New ''connection refused''" "[(8, ''bb'')]", THEN conjunct2]
    by simp
  ultimately show ?thesis by simp
qed

section \<open>Claims about starting the subprocess\<close>

lemma le_fold_max: "a \<le> fold max fds (a::nat)"
proof (induction fds arbitrary: a)
  case Nil
  show ?case by simp
next
  case (Cons x xs)
  have "a \<le> max x a" by simp
  also have "\<dots> \<le> fold max xs (max x a)" by (rule Cons.IH)
  finally show ?case by simp
qed

lemma member_le_fold_max: "n \<in> set fds \<Longrightarrow> n \<le> fold max fds (a::nat)"
proof (induction fds arbitrary: a)
  case Nil
  then show ?case by simp
next
  case (Cons x xs)
  show ?case
  proof (cases "n = x")
    case True
    have "x \<le> max x a" by simp
    also have "\<dots> \<le> fold max xs (max x a)" by (rule le_fold_max)
    finally show ?thesis using True by simp
  next
    case False
    with Cons.prems have "n \<in> set xs" by simp
    then show ?thesis by (simp add: Cons.IH)
  qed
qed

lemma unused_fd_fresh: "unused_fd fds \<notin> set fds"
proof
  assume "unused_fd fds \<in> set fds"
  then have "unused_fd fds \<le> fold max fds 2" by (rule member_le_fold_max)
  then show False by (simp add: unused_fd_def)
qed

lemma start_success:
  "pipe_failure os = None \<Longrightarrow> start_failure cmd = None \<Longrightarrow>
   start c cmd os =
     (let r = unused_fd (open_files os); w = unused_fd (r # open_files os)
      in ((\<lparr>Reader = Some r, File = Some w\<rparr>, None),
          cmd\<lparr>ExtraFiles := [Some w], started := True, child_fds := [(3, w)]\<rparr>,
          os\<lparr>open_files := open_files os @ [r, w], pipes := pipes os @ [(r, w)]\<rparr>))"
  by (simp add: start_def os_Pipe_def cmd_Start_def cmd_setExtraFiles_def inherited_fds_def Let_def)

lemma start_succeeds_iff:
  "snd (fst (start c cmd os)) = None \<longleftrightarrow> pipe_failure os = None \<and> start_failure cmd = None"
  by (auto simp: start_def os_Pipe_def cmd_Start_def cmd_setExtraFiles_def Let_def
      split: option.splits prod.splits)

lemmas start_defs = start_def os_Pipe_def cmd_Start_def cmd_setExtraFiles_def inherited_fds_def
  file_Close_def unused_fd_def pipe_zero_def example_os_def example_cmd_def

text \<open>
  C5. On every successful call of \<^verbatim>\<open>start\<close>, the command's extra files are exactly one
  descriptor, the write end of a pipe made during the call (both ends were not open
  before and are open after); the child sees it as descriptor 3, the descriptor that
  \<^verbatim>\<open>getPipeName\<close> names, and the returned pipe holds the read end and the write end.
\<close>

theorem start_passes_write_end_as_fd_3:
  assumes "start c cmd os = ((p, None), cmd', os')"
  shows "\<exists>r w. Reader p = Some r \<and> File p = Some w \<and> r \<noteq> w \<and>
           r \<notin> set (open_files os) \<and> w \<notin> set (open_files os) \<and>
           pipes os' = pipes os @ [(r, w)] \<and>
           open_files os' = open_files os @ [r, w] \<and>
           ExtraFiles cmd' = [Some w] \<and>
           child_fds cmd' = [(3, w)] \<and>
           getPipeName c = ''fd:3''"
proof -
  from assms have "snd (fst (start c cmd os)) = None" by simp
  then have ok: "pipe_failure os = None" "start_failure cmd = None"
    by (simp_all add: start_succeeds_iff)
  define r where "r = unused_fd (open_files os)"
  define w where "w = unused_fd (r # open_files os)"
  from start_success [OF ok, of c] assms
  have p: "p = \<lparr>Reader = Some r, File = Some w\<rparr>"
    and cmd': "cmd' = cmd\<lparr>ExtraFiles := [Some w], started := True, child_fds := [(3, w)]\<rparr>"
    and os': "os' = os\<lparr>open_files := open_files os @ [r, w], pipes := pipes os @ [(r, w)]\<rparr>"
    by (simp_all add: Let_def r_def w_def)
  have "r \<notin> set (open_files os)" unfolding r_def by (rule unused_fd_fresh)
  moreover have "w \<notin> set (r # open_files os)" unfolding w_def by (rule unused_fd_fresh)
  ultimately show ?thesis
    using p cmd' os' by (auto simp: getPipeName_def)
qed

theorem start_passes_write_end_as_fd_3_witness:
  "start () (example_cmd None) (example_os None) =
     ((\<lparr>Reader = Some 6, File = Some 7\<rparr>, None),
      \<lparr>ExtraFiles = [Some 7], start_failure = None, started = True, child_fds = [(3, 7)]\<rparr>,
      \<lparr>open_files = [0, 1, 2, 5, 6, 7], pipes = [(6, 7)], pipe_failure = None\<rparr>) \<and>
   getPipeName () = ''fd:3''"
proof -
  have run: "start () (example_cmd None) (example_os None) =
      ((\<lparr>Reader = Some 6, File = Some 7\<rparr>, None),
       \<lparr>ExtraFiles = [Some 7], start_failure = None, started = True, child_fds = [(3, 7)]\<rparr>,
       \<lparr>open_files = [0, 1, 2, 5, 6, 7], pipes = [(6, 7)], pipe_failure = None\<rparr>)"
    by (simp add: start_defs)
  from start_passes_write_end_as_fd_3 [OF run]
  have "getPipeName () = ''fd:3''" by blast
  with run show ?thesis by simp
qed

text \<open>
  C6. If \<^verbatim>\<open>cmd.Start\<close> fails after the pipe was made, \<^verbatim>\<open>start\<close> returns the zero-value pipe
  and the wrapped error, and both ends of the pipe made during the call are closed: the
  open descriptors are those that were open before the call.
\<close>

theorem start_failure_closes_pipe:
  assumes "pipe_failure os = None" and "start_failure cmd = Some e"
  shows "\<exists>r w cmd' os'.
           start c cmd os = ((pipe_zero, Some (Wrap e ''error starting gravity'')), cmd', os') \<and>
           pipes os' = pipes os @ [(r, w)] \<and>
           r \<notin> set (open_files os') \<and> w \<notin> set (open_files os') \<and>
           open_files os' = open_files os"
proof -
  define r where "r = unused_fd (open_files os)"
  define w where "w = unused_fd (r # open_files os)"
  have r: "r \<notin> set (open_files os)" unfolding r_def by (rule unused_fd_fresh)
  have "w \<notin> set (r # open_files os)" unfolding w_def by (rule unused_fd_fresh)
  then have w: "w \<notin> set (open_files os)" and rw: "r \<noteq> w" by auto
  have "start c cmd os =
      ((pipe_zero, Some (Wrap e ''error starting gravity'')),
       cmd\<lparr>ExtraFiles := [Some w]\<rparr>,
       os\<lparr>open_files := removeAll r (removeAll w (open_files os @ [r, w])),
          pipes := pipes os @ [(r, w)]\<rparr>)"
    using assms
    by (simp add: start_def os_Pipe_def cmd_Start_def cmd_setExtraFiles_def file_Close_def
        Let_def r_def w_def)
  moreover have "removeAll r (removeAll w (open_files os @ [r, w])) = open_files os"
    using r w rw by (simp add: removeAll_id)
  ultimately show ?thesis using r w by auto
qed

theorem start_failure_closes_pipe_witness:
  "start () (example_cmd (Some (New ''exec: not found''))) (example_os None) =
     ((pipe_zero, Some (Wrap (New ''exec: not found'') ''error starting gravity'')),
      \<lparr>ExtraFiles = [Some 7], start_failure = Some (New ''exec: not found''), started = False,
       child_fds = []\<rparr>,
      \<lparr>open_files = [0, 1, 2, 5], pipes = [(6, 7)], pipe_failure = None\<rparr>)"
proof -
  have "pipe_failure (example_os None) = None"
    and "start_failure (example_cmd (Some (New ''exec: not found''))) = Some (New ''exec: not found'')"
    by (simp_all add: example_os_def example_cmd_def)
  from start_failure_closes_pipe [OF this, of "()"]
  obtain r w cmd' os' where
    "start () (example_cmd (Some (New ''exec: not found''))) (example_os None) =
       ((pipe_zero, Some (Wrap (New ''exec: not found'') ''error starting gravity'')), cmd', os')"
    by blast
  then show ?thesis by (simp add: start_defs)
qed

section \<open>Claims about the transaction processor\<close>

lemma capped_new:
  "capped (NewTransactionProcessor history_Q seq)"
  "capped (NewTransactionFilteredTmpProcessor history_Q seq)"
  by (simp_all add: capped_def NewTransactionProcessor_def NewTransactionFilteredTmpProcessor_def
      history_Q_def maxBatchSize_def)

lemma capped_ProcessTransaction: "capped p \<Longrightarrow> capped (snd (ProcessTransaction tx p))"
  by (auto simp: capped_def ProcessTransaction_def history_Q_def builder_Add_def builder_Exec_def
      Let_def maxBatchSize_def split: prod.splits option.splits if_splits)

lemma capped_Commit: "capped p \<Longrightarrow> capped (snd (Commit p))"
  by (auto simp: capped_def Commit_def history_Q_def builder_Exec_def maxBatchSize_def
      split: prod.splits option.splits if_splits)

lemma capped_run_processor: "capped p \<Longrightarrow> capped (run_processor cs p)"
  by (induction cs p rule: run_processor.induct)
     (simp_all add: capped_ProcessTransaction capped_Commit)

text \<open>The cap is reached: the row that fills the batch is flushed with it, as one statement.\<close>

lemma full_batch_is_flushed:
  assumes "capped p" and "length (pending_rows (batch p)) = 99999"
  shows "statements (batch (snd (ProcessTransaction tx p))) =
           statements (batch p) @ [pending_rows (batch p) @ [(tx, sequence p)]] \<and>
         length (pending_rows (batch p) @ [(tx, sequence p)]) = 100000 \<and>
         pending_rows (batch (snd (ProcessTransaction tx p))) = []"
  using assms
  by (simp add: capped_def ProcessTransaction_def history_Q_def builder_Add_def builder_Exec_def
      Let_def maxBatchSize_def)

lemmas processor_defs = NewTransactionProcessor_def NewTransactionFilteredTmpProcessor_def
  ProcessTransaction_def Commit_def history_Q_def builder_Add_def builder_Exec_def
  maxBatchSize_def example_tx_def

text \<open>
  C7. Both constructors of \<^verbatim>\<open>TransactionProcessor\<close> make their batch insert builder with
  the maximum batch size \<open>maxBatchSize = 100000\<close>, whatever the \<^verbatim>\<open>QTransactions\<close>; and over
  the modelled builder, after any sequence of \<^verbatim>\<open>ProcessTransaction\<close> and \<^verbatim>\<open>Commit\<close> calls on
  either processor, every insert statement flushed has at most 100000 rows.
\<close>

theorem processors_use_maxBatchSize:
  "batch (NewTransactionProcessor q seq) = NewTransactionBatchInsertBuilder q 100000 \<and>
   batch (NewTransactionFilteredTmpProcessor q seq) =
     NewTransactionFilteredTmpBatchInsertBuilder q 100000 \<and>
   MaxBatchSize (batch (NewTransactionProcessor history_Q seq)) = 100000 \<and>
   MaxBatchSize (batch (NewTransactionFilteredTmpProcessor history_Q seq)) = 100000 \<and>
   (\<forall>stmt \<in> set (statements (batch (run_processor cs (NewTransactionProcessor history_Q seq)))).
      length stmt \<le> 100000) \<and>
   (\<forall>stmt \<in> set (statements (batch (run_processor cs
        (NewTransactionFilteredTmpProcessor history_Q seq)))).
      length stmt \<le> 100000)"
proof (intro conjI)
  show "batch (NewTransactionProcessor q seq) = NewTransactionBatchInsertBuilder q 100000"
    by (simp add: NewTransactionProcessor_def maxBatchSize_def)
  show "batch (NewTransactionFilteredTmpProcessor q seq) =
     NewTransactionFilteredTmpBatchInsertBuilder q 100000"
    by (simp add: NewTransactionFilteredTmpProcessor_def maxBatchSize_def)
  show "MaxBatchSize (batch (NewTransactionProcessor history_Q seq)) = 100000"
    by (simp add: NewTransactionProcessor_def maxBatchSize_def history_Q_def)
  show "MaxBatchSize (batch (NewTransactionFilteredTmpProcessor history_Q seq)) = 100000"
    by (simp add: NewTransactionFilteredTmpProcessor_def maxBatchSize_def history_Q_def)
  have "capped (run_processor cs (NewTransactionProcessor history_Q seq))"
    by (rule capped_run_processor) (rule capped_new)
  then show "\<forall>stmt \<in> set (statements (batch (run_processor cs
      (NewTransactionProcessor history_Q seq)))). length stmt \<le> 100000"
    by (auto simp: capped_def maxBatchSize_def)
  have "capped (run_processor cs (NewTransactionFilteredTmpProcessor history_Q seq))"
    by (rule capped_run_processor) (rule capped_new)
  then show "\<forall>stmt \<in> set (statements (batch (run_processor cs
      (NewTransactionFilteredTmpProcessor history_Q seq)))). length stmt \<le> 100000"
    by (auto simp: capped_def maxBatchSize_def)
qed

theorem processors_use_maxBatchSize_witness:
  "statements (batch (run_processor
       [DoProcessTransaction (example_tx 1), DoProcessTransaction (example_tx 2), DoCommit,
        DoProcessTransaction (example_tx 3), DoCommit]
       (NewTransactionProcessor history_Q 7))) =
     [[(example_tx 1, 7), (example_tx 2, 7)], [(example_tx 3, 7)]] \<and>
   length [(example_tx 1, 7 :: 32 word), (example_tx 2, 7)] \<le> 100000 \<and>
   statements (batch (run_processor
       [DoProcessTransaction (example_tx 1), DoCommit, DoCommit]
       (NewTransactionFilteredTmpProcessor history_Q 7))) =
     [[(example_tx 1, 7)]] \<and>
   length [(example_tx 1, 7 :: 32 word)] \<le> 100000"
proof -
  have s1: "statements (batch (run_processor
       [DoProcessTransaction (example_tx 1), DoProcessTransaction (example_tx 2), DoCommit,
        DoProcessTransaction (example_tx 3), DoCommit]
       (NewTransactionProcessor history_Q 7))) =
     [[(example_tx 1, 7), (example_tx 2, 7)], [(example_tx 3, 7)]]"
    by (simp add: processor_defs)
  have s2: "statements (batch (run_processor
       [DoProcessTransaction (example_tx 1), DoCommit, DoCommit]
       (NewTransactionFilteredTmpProcessor history_Q 7))) =
     [[(example_tx 1, 7)]]"
    by (simp add: processor_defs)
  from processors_use_maxBatchSize
    [of _ 7 "[DoProcessTransaction (example_tx 1), DoProcessTransaction (example_tx 2), DoCommit,
        DoProcessTransaction (example_tx 3), DoCommit]"]
  have "length [(example_tx 1, 7 :: 32 word), (example_tx 2, 7)] \<le> 100000"
    unfolding s1 by simp
  moreover from processors_use_maxBatchSize
    [of _ 7 "[DoProcessTransaction (example_tx 1), DoCommit, DoCommit]"]
  have "length [(example_tx 1, 7 :: 32 word)] \<le> 100000"
    unfolding s2 by simp
  ultimately show ?thesis using s1 s2 by simp
qed

section \<open>Claims about hashing with a blank passphrase\<close>

lemma prefix_free_space_runes: "prefix_free space_runes"
  by code_simp

lemma prefix_freeD:
  assumes "prefix_free encs" and "a \<in> set encs" and "b \<in> set encs"
    and "take (length a) b = a"
  shows "a = b"
  using assms by (auto simp: prefix_free_def list_all_iff)

lemma prefix_free_nonempty: "prefix_free encs \<Longrightarrow> e \<in> set encs \<Longrightarrow> e \<noteq> []"
  by (auto simp: prefix_free_def list_all_iff)

lemma leading_space_Nil: "leading_space encs [] = 0"
proof -
  have "find (\<lambda>e. e \<noteq> [] \<and> take (length e) [] = e) encs = None"
    by (auto simp: find_None_iff)
  then show ?thesis by (simp add: leading_space_def)
qed

lemma leading_space_prefix:
  assumes pf: "prefix_free encs" and e: "e \<in> set encs"
  shows "leading_space encs (e @ s) = length e"
proof -
  let ?P = "\<lambda>x. x \<noteq> [] \<and> take (length x) (e @ s) = x"
  from pf e have "?P e" by (simp add: prefix_free_nonempty)
  with e have "find ?P encs \<noteq> None" by (auto simp: find_None_iff)
  then obtain x where x: "find ?P encs = Some x" by auto
  then have xin: "x \<in> set encs" and xP: "?P x"
    by (auto simp: find_Some_iff)
  have "x = e"
  proof (cases "length x \<le> length e")
    case True
    with xP have "take (length x) e = x" by simp
    from prefix_freeD [OF pf xin e this] show ?thesis .
  next
    case False
    from xP have "take (length e) x = take (length e) (take (length x) (e @ s))" by simp
    also from False have "\<dots> = e" by (simp add: min_def)
    finally have "take (length e) x = e" .
    from prefix_freeD [OF pf e xin this] show ?thesis by simp
  qed
  with x show ?thesis by (simp add: leading_space_def)
qed

lemma trim_leading_concat:
  assumes pf: "prefix_free encs"
  shows "set ws \<subseteq> set encs \<Longrightarrow> trim_leading encs (concat ws @ s) = trim_leading encs s"
proof (induction ws)
  case Nil
  show ?case by simp
next
  case (Cons e ws)
  then have e: "e \<in> set encs" and ws: "set ws \<subseteq> set encs" by simp_all
  have n: "leading_space encs (e @ concat ws @ s) = length e"
    by (rule leading_space_prefix [OF pf e])
  from pf e have "e \<noteq> []" by (rule prefix_free_nonempty)
  with n have "trim_leading encs (e @ concat ws @ s) = trim_leading encs (concat ws @ s)"
    by (subst trim_leading.simps) simp
  with Cons.IH [OF ws] show ?case by simp
qed

lemma trim_leading_Nil: "trim_leading encs [] = []"
  by (subst trim_leading.simps) (simp add: leading_space_Nil)

lemma whitespace_only_TrimSpace:
  assumes "whitespace_only s"
  shows "TrimSpace s = ''''"
proof -
  from assms obtain ws where ws: "set ws \<subseteq> set space_runes" and s: "s = concat ws"
    by (auto simp: whitespace_only_def)
  have "trim_leading space_runes (concat ws @ []) = trim_leading space_runes []"
    by (rule trim_leading_concat [OF prefix_free_space_runes ws])
  with s have "trim_leading space_runes s = []" by (simp add: trim_leading_Nil)
  then show ?thesis by (simp add: TrimSpace_def trim_leading_Nil)
qed

lemma hashTx_blank:
  "whitespace_only passphrase \<Longrightarrow>
   hashTx X tx passphrase = (zero_hash, Some (New ''empty network passphrase''))"
  by (simp add: hashTx_def whitespace_only_TrimSpace)

text \<open>The guard of \<^verbatim>\<open>hashTx\<close> holds exactly of the strings that are only white space.\<close>

lemma leading_space_take:
  assumes "leading_space encs s \<noteq> 0"
  shows "take (leading_space encs s) s \<in> set encs \<and>
         s = take (leading_space encs s) s @ drop (leading_space encs s) s"
proof -
  from assms obtain e where f: "find (\<lambda>e. e \<noteq> [] \<and> take (length e) s = e) encs = Some e"
    by (auto simp: leading_space_def split: option.splits)
  then have "e \<in> set encs" and "take (length e) s = e"
    by (auto simp: find_Some_iff)
  moreover from f have "leading_space encs s = length e" by (simp add: leading_space_def)
  ultimately show ?thesis by (metis append_take_drop_id)
qed

lemma trim_leading_decomposition:
  "\<exists>ws. set ws \<subseteq> set encs \<and> s = concat ws @ trim_leading encs s \<and>
        leading_space encs (trim_leading encs s) = 0"
proof (induction encs s rule: trim_leading.induct)
  case (1 encs s)
  show ?case
  proof (cases "leading_space encs s = 0")
    case True
    then have "trim_leading encs s = s" by (subst trim_leading.simps) simp
    with True have "set [] \<subseteq> set encs \<and> s = concat [] @ trim_leading encs s \<and>
        leading_space encs (trim_leading encs s) = 0" by simp
    then show ?thesis by blast
  next
    case False
    let ?n = "leading_space encs s"
    from 1 [OF False] obtain ws where ws: "set ws \<subseteq> set encs"
      and d: "drop ?n s = concat ws @ trim_leading encs (drop ?n s)"
      and z: "leading_space encs (trim_leading encs (drop ?n s)) = 0"
      by blast
    from False have t: "trim_leading encs s = trim_leading encs (drop ?n s)"
      by (subst trim_leading.simps) simp
    from leading_space_take [OF False] have e: "take ?n s \<in> set encs"
      and s: "s = take ?n s @ drop ?n s" by simp_all
    from s d have "s = concat (take ?n s # ws) @ trim_leading encs (drop ?n s)" by simp
    with e ws z t have "set (take ?n s # ws) \<subseteq> set encs \<and>
        s = concat (take ?n s # ws) @ trim_leading encs s \<and>
        leading_space encs (trim_leading encs s) = 0" by simp
    then show ?thesis by blast
  qed
qed

lemma concat_no_leading_space:
  assumes pf: "prefix_free encs" and ws: "set ws \<subseteq> set encs"
    and z: "leading_space encs (concat ws) = 0"
  shows "concat ws = []"
proof (cases ws)
  case Nil
  then show ?thesis by simp
next
  case (Cons e es)
  with ws have e: "e \<in> set encs" by simp
  from pf e have "e \<noteq> []" by (rule prefix_free_nonempty)
  moreover have "leading_space encs (e @ concat es) = length e"
    by (rule leading_space_prefix [OF pf e])
  ultimately show ?thesis using z Cons by simp
qed

lemma TrimSpace_whitespace_only:
  assumes "TrimSpace s = ''''"
  shows "whitespace_only s"
proof -
  let ?t = "trim_leading space_runes s"
  from trim_leading_decomposition [of space_runes s]
  obtain ws where ws: "set ws \<subseteq> set space_runes" and s: "s = concat ws @ ?t"
    and z: "leading_space space_runes ?t = 0" by blast
  from assms have r: "trim_leading (map rev space_runes) (rev ?t) = []"
    by (simp add: TrimSpace_def)
  from trim_leading_decomposition [of "map rev space_runes" "rev ?t"]
  obtain vs where vs: "set vs \<subseteq> set (map rev space_runes)" and "rev ?t = concat vs"
    using r by auto
  then have "?t = rev (concat vs)" by (metis rev_rev_ident)
  then have t: "?t = concat (map rev (rev vs))" by (simp add: rev_concat rev_map)
  have "set (map rev (rev vs)) \<subseteq> set space_runes"
    using vs by auto
  from concat_no_leading_space [OF prefix_free_space_runes this] z t
  have "?t = []" by simp
  with s ws show ?thesis by (auto simp: whitespace_only_def)
qed

lemma TrimSpace_empty_iff: "TrimSpace s = '''' \<longleftrightarrow> whitespace_only s"
  using TrimSpace_whitespace_only whitespace_only_TrimSpace by blast

lemma HashTransaction_blank:
  "whitespace_only passphrase \<Longrightarrow>
   HashTransaction X tx passphrase = (zero_hash, Some (New ''empty network passphrase''))"
  by (simp add: HashTransaction_def hashTx_blank)

lemma HashFeeBumpTransaction_blank:
  "whitespace_only passphrase \<Longrightarrow>
   HashFeeBumpTransaction X tx passphrase = (zero_hash, Some (New ''empty network passphrase''))"
  by (simp add: HashFeeBumpTransaction_def hashTx_blank)

lemma HashTransactionV0_blank:
  "whitespace_only passphrase \<Longrightarrow>
   HashTransactionV0 X tx passphrase = (zero_hash, Some (New ''empty network passphrase''))"
  by (simp add: HashTransactionV0_def NewMuxedAccount_def HashTransaction_blank)

lemma whitespace_only_blank_passphrase: "whitespace_only blank_passphrase"
  unfolding whitespace_only_def blank_passphrase_def
  by (rule exI [of _ "[[CHR 0x20], [CHR 0x09], [CHR 0xC2, CHR 0xA0]]"])
     (simp add: space_runes_def)

text \<open>With a passphrase that is not blank the model does produce a hash.\<close>

lemma TrimSpace_TestNetworkPassphrase: "TrimSpace TestNetworkPassphrase = TestNetworkPassphrase"
  by code_simp

lemma HashTransaction_TestNetworkPassphrase:
  "snd (HashTransaction example_xdr example_v1 TestNetworkPassphrase) = None"
  by (simp add: HashTransaction_def hashTx_def TrimSpace_TestNetworkPassphrase example_xdr_def)
     (simp add: TestNetworkPassphrase_def)

text \<open>
  C10. For every passphrase that is empty or consists only of white space, and every
  transaction: \<^verbatim>\<open>hashTx\<close>, and hence \<^verbatim>\<open>HashTransaction\<close>, \<^verbatim>\<open>HashFeeBumpTransaction\<close>,
  \<^verbatim>\<open>HashTransactionV0\<close>, and \<^verbatim>\<open>HashTransactionInEnvelope\<close> on every envelope that carries a
  transaction, return the zero hash together with the error "empty network passphrase".
  Whenever \<^verbatim>\<open>HashTransactionInEnvelope\<close> returns, on any envelope, the hash is the zero hash
  and the error is not \<^verbatim>\<open>nil\<close>: no signature payload hash is produced for a blank passphrase.
\<close>

theorem blank_passphrase_never_hashed:
  assumes "whitespace_only passphrase"
  shows "hashTx X tagged passphrase = (zero_hash, Some (New ''empty network passphrase'')) \<and>
    HashTransaction X tx passphrase = (zero_hash, Some (New ''empty network passphrase'')) \<and>
    HashFeeBumpTransaction X fb passphrase =
      (zero_hash, Some (New ''empty network passphrase'')) \<and>
    HashTransactionV0 X tx0 passphrase = (zero_hash, Some (New ''empty network passphrase'')) \<and>
    (carries_transaction envelope \<longrightarrow>
       HashTransactionInEnvelope X envelope passphrase =
         Inr (zero_hash, Some (New ''empty network passphrase''))) \<and>
    (\<forall>h err. HashTransactionInEnvelope X envelope passphrase = Inr (h, err) \<longrightarrow>
       h = zero_hash \<and> err \<noteq> None)"
proof (intro conjI allI impI)
  show "hashTx X tagged passphrase = (zero_hash, Some (New ''empty network passphrase''))"
    using assms by (rule hashTx_blank)
  show "HashTransaction X tx passphrase = (zero_hash, Some (New ''empty network passphrase''))"
    using assms by (rule HashTransaction_blank)
  show "HashFeeBumpTransaction X fb passphrase =
      (zero_hash, Some (New ''empty network passphrase''))"
    using assms by (rule HashFeeBumpTransaction_blank)
  show "HashTransactionV0 X tx0 passphrase = (zero_hash, Some (New ''empty network passphrase''))"
    using assms by (rule HashTransactionV0_blank)
next
  assume "carries_transaction envelope"
  then show "HashTransactionInEnvelope X envelope passphrase =
      Inr (zero_hash, Some (New ''empty network passphrase''))"
    using assms
    by (auto simp: carries_transaction_def HashTransactionInEnvelope_def HashTransaction_blank
        HashFeeBumpTransaction_blank HashTransactionV0_blank)
next
  fix h err
  assume "HashTransactionInEnvelope X envelope passphrase = Inr (h, err)"
  then have "h = zero_hash \<and> err \<noteq> None"
    using assms
    by (cases "Type envelope")
       (auto simp: HashTransactionInEnvelope_def HashTransaction_blank
          HashFeeBumpTransaction_blank HashTransactionV0_blank split: option.splits)
  then show "h = zero_hash" and "err \<noteq> None" by simp_all
qed

theorem blank_passphrase_never_hashed_witness:
  "HashTransaction example_xdr example_v1 blank_passphrase =
     (zero_hash, Some (New ''empty network passphrase'')) \<and>
   HashTransactionV0 example_xdr (example_v0 7) blank_passphrase =
     (zero_hash, Some (New ''empty network passphrase'')) \<and>
   HashTransactionInEnvelope example_xdr
     \<lparr>Type = EnvelopeTypeEnvelopeTypeTx, V0 = None,
      V1 = Some (TransactionV1Envelope example_v1 []), FeeBumpEnvelope = None\<rparr>
     blank_passphrase =
     Inr (zero_hash, Some (New ''empty network passphrase'')) \<and>
   HashTransactionInEnvelope example_xdr
     \<lparr>Type = EnvelopeTypeEnvelopeTypeTxV0,
      V0 = Some (TransactionV0Envelope (example_v0 7) []), V1 = None, FeeBumpEnvelope = None\<rparr>
     blank_passphrase =
     Inr (zero_hash, Some (New ''empty network passphrase'')) \<and>
   HashTransactionInEnvelope example_xdr
     \<lparr>Type = EnvelopeTypeEnvelopeTypeTxFeeBump, V0 = None, V1 = None,
      FeeBumpEnvelope = Some (FeeBumpTransactionEnvelope ''bump'' [])\<rparr>
     blank_passphrase =
     Inr (zero_hash, Some (New ''empty network passphrase''))"
proof (intro conjI)
  note w = whitespace_only_blank_passphrase
  show "HashTransaction example_xdr example_v1 blank_passphrase =
     (zero_hash, Some (New ''empty network passphrase''))"
    using blank_passphrase_never_hashed [OF w, of example_xdr _ example_v1] by simp
  show "HashTransactionV0 example_xdr (example_v0 7) blank_passphrase =
     (zero_hash, Some (New ''empty network passphrase''))"
    using blank_passphrase_never_hashed [OF w, of example_xdr _ _ _ "example_v0 7"] by simp
  show "HashTransactionInEnvelope example_xdr
     \<lparr>Type = EnvelopeTypeEnvelopeTypeTx, V0 = None,
      V1 = Some (TransactionV1Envelope example_v1 []), FeeBumpEnvelope = None\<rparr>
     blank_passphrase =
     Inr (zero_hash, Some (New ''empty network passphrase''))"
    using blank_passphrase_never_hashed
      [OF w, of example_xdr _ _ _ _
         "\<lparr>Type = EnvelopeTypeEnvelopeTypeTx, V0 = None,
           V1 = Some (TransactionV1Envelope example_v1 []), FeeBumpEnvelope = None\<rparr>"]
    by (simp add: carries_transaction_def)
  show "HashTransactionInEnvelope example_xdr
     \<lparr>Type = EnvelopeTypeEnvelopeTypeTxV0,
      V0 = Some (TransactionV0Envelope (example_v0 7) []), V1 = None, FeeBumpEnvelope = None\<rparr>
     blank_passphrase =
     Inr (zero_hash, Some (New ''empty network passphrase''))"
    using blank_passphrase_never_hashed
      [OF w, of example_xdr _ _ _ _
         "\<lparr>Type = EnvelopeTypeEnvelopeTypeTxV0,
           V0 = Some (TransactionV0Envelope (example_v0 7) []), V1 = None,
           FeeBumpEnvelope = None\<rparr>"]
    by (simp add: carries_transaction_def)
  show "HashTransactionInEnvelope example_xdr
     \<lparr>Type = EnvelopeTypeEnvelopeTypeTxFeeBump, V0 = None, V1 = None,
      FeeBumpEnvelope = Some (FeeBumpTransactionEnvelope ''bump'' [])\<rparr>
     blank_passphrase =
     Inr (zero_hash, Some (New ''empty network passphrase''))"
    using blank_passphrase_never_hashed
      [OF w, of example_xdr _ _ _ _
         "\<lparr>Type = EnvelopeTypeEnvelopeTypeTxFeeBump, V0 = None, V1 = None,
           FeeBumpEnvelope = Some (FeeBumpTransactionEnvelope ''bump'' [])\<rparr>"]
    by (simp add: carries_transaction_def)
qed

end
